theory Spec2Isabelle
  imports Main "HOL-Library.Word" "HOL-Library.List_Lexorder" "HOL-Library.AList"
begin

section \<open>JavaScript strings\<close>

text \<open>
  A JavaScript string is a sequence of UTF-16 code units. \<open>indexOf\<close>, \<open>substring\<close>,
  \<open>length\<close>, \<open>===\<close> and the default comparison of \<open>Array.prototype.sort()\<close> all work on
  code units, and the order of \<open>HOL-Library.List_Lexorder\<close> on lists of unsigned 16-bit
  words is the order the default sort uses. ASCII literals of the source are written
  \<open>js ''...''\<close>.
\<close>

type_synonym unit16 = "16 word"
type_synonym jsstring = "unit16 list"

definition js :: "string \<Rightarrow> jsstring" where
  "js s = map (\<lambda>c. of_nat (of_char c)) s"

text \<open>\<open>type Status = "\<dots>" | "\<dots>"\<close>: the red circle U+1F534 and the green circle U+1F7E2.\<close>

datatype Status = Red | Green

text \<open>The surrogate pairs of the two glyphs, and the white circle U+26AA.\<close>

definition RED :: jsstring where
  "RED = [0xD83D, 0xDD34]"

definition GREEN :: jsstring where
  "GREEN = [0xD83D, 0xDFE2]"

definition WHITE :: jsstring where
  "WHITE = [0x26AA]"

fun glyph :: "Status \<Rightarrow> jsstring" where
  "glyph Red = RED"
| "glyph Green = GREEN"

section \<open>Line parser\<close>

text \<open>
  \<open>line.match(/([\u{1F534}\u{1F7E2}])\s+([0-9_]+)/u)\<close> in index.ts and
  \<open>line.match(/([\u{1F534}\u{1F7E2}])\s+(\d+)/u)\<close> in the simplified file.

  \<open>isSpace\<close> is the class \<open>\s\<close> of ECMAScript (WhiteSpace and LineTerminator), all of
  whose members are single code units.
\<close>

definition isSpace :: "unit16 \<Rightarrow> bool" where
  "isSpace c \<longleftrightarrow>
     c = 0x0009 \<or> c = 0x000A \<or> c = 0x000B \<or> c = 0x000C \<or> c = 0x000D \<or> c = 0x0020 \<or>
     c = 0x00A0 \<or> c = 0x1680 \<or> (0x2000 \<le> c \<and> c \<le> 0x200A) \<or> c = 0x2028 \<or> c = 0x2029 \<or>
     c = 0x202F \<or> c = 0x205F \<or> c = 0x3000 \<or> c = 0xFEFF"

definition isDigit :: "unit16 \<Rightarrow> bool" where
  "isDigit c \<longleftrightarrow> 0x30 \<le> c \<and> c \<le> 0x39"

text \<open>The two source files differ in the identifier class: \<open>[0-9_]\<close> against \<open>\d\<close>.\<close>

datatype variant = Full | Simplified

fun isIdChar :: "variant \<Rightarrow> unit16 \<Rightarrow> bool" where
  "isIdChar Full c = (isDigit c \<or> c = 0x5F)"
| "isIdChar Simplified c = isDigit c"

text \<open>The capture group \<open>([\u{1F534}\u{1F7E2}])\<close> at the head of the input.\<close>

fun matchGlyph :: "jsstring \<Rightarrow> (Status \<times> jsstring) option" where
  "matchGlyph (a # b # rest) =
     (if [a, b] = RED then Some (Red, rest)
      else if [a, b] = GREEN then Some (Green, rest)
      else None)"
| "matchGlyph _ = None"

text \<open>
  One attempt of the matcher at a fixed start position: the glyph, then the greedy
  \<open>\s+\<close>, then the greedy identifier class. The two classes are disjoint, so giving back
  white space can never make the identifier match, and the greedy run is the only
  candidate.
\<close>

definition matchAt :: "variant \<Rightarrow> jsstring \<Rightarrow> (Status \<times> jsstring) option" where
  "matchAt v s =
     (case matchGlyph s of
        None \<Rightarrow> None
      | Some (status, rest) \<Rightarrow>
          (let ws = takeWhile isSpace rest;
               traceId = takeWhile (isIdChar v) (dropWhile isSpace rest)
           in if ws \<noteq> [] \<and> traceId \<noteq> [] then Some (status, traceId) else None))"

text \<open>
  \<open>String.prototype.match\<close> with a regular expression without the \<open>g\<close> flag: the start
  positions are tried from left to right and the first success is the result. With the
  \<open>u\<close> flag the start position advances by code points; the positions this skips hold
  a trail surrogate, where \<open>matchGlyph\<close> fails, so trying every code unit index gives
  the same result.
\<close>

fun lineMatch :: "variant \<Rightarrow> jsstring \<Rightarrow> (Status \<times> jsstring) option" where
  "lineMatch v [] = None"
| "lineMatch v (c # cs) =
     (case matchAt v (c # cs) of
        Some m \<Rightarrow> Some m
      | None \<Rightarrow> lineMatch v cs)"

text \<open>
  The statement of the pattern in the words of the specification: somewhere in the line
  stands one of the two glyphs, then one or more white space characters, then one or
  more identifier characters.
\<close>

definition matchesPattern :: "variant \<Rightarrow> jsstring \<Rightarrow> bool" where
  "matchesPattern v line \<longleftrightarrow>
     (\<exists>pre g ws ident post.
        line = pre @ g @ ws @ ident @ post \<and> (g = RED \<or> g = GREEN) \<and>
        ws \<noteq> [] \<and> (\<forall>c\<in>set ws. isSpace c) \<and>
        ident \<noteq> [] \<and> (\<forall>c\<in>set ident. isIdChar v c))"

section \<open>String operations of the standard library\<close>

definition NL :: jsstring where
  "NL = [0x000A]"

definition startsWith :: "jsstring \<Rightarrow> jsstring \<Rightarrow> bool" where
  "startsWith s pat \<longleftrightarrow> take (length pat) s = pat"

definition endsWith :: "jsstring \<Rightarrow> jsstring \<Rightarrow> bool" where
  "endsWith s pat \<longleftrightarrow> length pat \<le> length s \<and> drop (length s - length pat) s = pat"

text \<open>\<open>s.indexOf(pat)\<close>: the index of the first occurrence; \<open>None\<close> stands for \<open>-1\<close>.\<close>

fun indexOf :: "jsstring \<Rightarrow> jsstring \<Rightarrow> nat option" where
  "indexOf [] pat = (if pat = [] then Some 0 else None)"
| "indexOf (c # cs) pat =
     (if startsWith (c # cs) pat then Some 0 else map_option Suc (indexOf cs pat))"

text \<open>\<open>s.substring(start, end)\<close> (the arguments are swapped when \<open>start > end\<close>) and
  \<open>s.substring(start)\<close>.\<close>

definition substring :: "jsstring \<Rightarrow> nat \<Rightarrow> nat \<Rightarrow> jsstring" where
  "substring s start end = take (max start end - min start end) (drop (min start end) s)"

definition substringFrom :: "jsstring \<Rightarrow> nat \<Rightarrow> jsstring" where
  "substringFrom s start = drop start s"

text \<open>\<open>s.replace(pat, rep)\<close> with a string pattern replaces the first occurrence only.\<close>

definition replaceFirst :: "jsstring \<Rightarrow> jsstring \<Rightarrow> jsstring \<Rightarrow> jsstring" where
  "replaceFirst s pat rep =
     (case indexOf s pat of
        None \<Rightarrow> s
      | Some i \<Rightarrow> take i s @ rep @ drop (i + length pat) s)"

text \<open>\<open>s.split(sep)\<close> for a separator of one code unit.\<close>

fun split :: "unit16 \<Rightarrow> jsstring \<Rightarrow> jsstring list" where
  "split sep [] = [[]]"
| "split sep (c # cs) =
     (if c = sep then [] # split sep cs
      else (case split sep cs of
              [] \<Rightarrow> [[c]]
            | l # ls \<Rightarrow> (c # l) # ls))"

text \<open>\<open>xs.join(sep)\<close>.\<close>

fun join :: "jsstring \<Rightarrow> jsstring list \<Rightarrow> jsstring" where
  "join sep [] = []"
| "join sep [x] = x"
| "join sep (x # y # ys) = x @ sep @ join sep (y # ys)"

text \<open>
  The decimal text of a count, as a template literal prints a number. The counts are
  numbers of traces, far below \<open>2^53\<close>, where Number arithmetic is exact.
\<close>

fun showNat :: "nat \<Rightarrow> jsstring" where
  "showNat n =
     (if n < 10 then [of_nat (48 + n)]
      else showNat (n div 10) @ [of_nat (48 + n mod 10)])"

declare showNat.simps [simp del]

text \<open>
  \<open>xs.sort(cmp)\<close>. For a consistent comparator ECMAScript fixes the result: the stable
  sorted permutation, which insertion from the right computes. (For an inconsistent
  comparator the order is left to the implementation.)
\<close>

fun insertBy :: "('a \<Rightarrow> 'a \<Rightarrow> int) \<Rightarrow> 'a \<Rightarrow> 'a list \<Rightarrow> 'a list" where
  "insertBy cmp x [] = [x]"
| "insertBy cmp x (y # ys) = (if cmp x y \<le> 0 then x # y # ys else y # insertBy cmp x ys)"

definition sortBy :: "('a \<Rightarrow> 'a \<Rightarrow> int) \<Rightarrow> 'a list \<Rightarrow> 'a list" where
  "sortBy cmp xs = foldr (insertBy cmp) xs []"

text \<open>\<open>set.add(x)\<close> on a \<open>Set\<close>, kept in insertion order.\<close>

definition setAdd :: "'a \<Rightarrow> 'a list \<Rightarrow> 'a list" where
  "setAdd x xs = (if x \<in> set xs then xs else xs @ [x])"

section \<open>The working copy\<close>

text \<open>
  What the run reads of one remote branch, in the order of \<open>git branch -r\<close>:
  whether \<open>git checkout -f\<close> succeeds (a failure throws into the \<open>catch\<close> of the loop
  body), the listing of the summaries directory when it exists, with the text of each
  entry (\<open>None\<close> when \<open>readFileSync\<close> throws), and the names under the traces
  directory.
\<close>

record branch =
  branchName :: jsstring
  checkoutOk :: bool
  summariesDir :: "(jsstring \<times> jsstring option) list option"
  traceDirs :: "jsstring list"

section \<open>Result aggregator\<close>

text \<open>
  The module state: \<open>results\<close> (trace id to team to status), \<open>traceBranchMap\<close> and
  \<open>allTeams\<close>. A \<open>Map\<close> is an association list in insertion order; \<open>Map.set\<close> is
  \<open>AList.update\<close> (an existing key keeps its place, a new one goes last), \<open>Map.get\<close> is
  \<open>map_of\<close>. The simplified file has no \<open>traceBranchMap\<close>; there the field stays empty.
\<close>

type_synonym teamStatusMap = "(jsstring \<times> Status) list"
type_synonym resultTable = "(jsstring \<times> teamStatusMap) list"

record state =
  results :: resultTable
  traceBranchMap :: "(jsstring \<times> jsstring) list"
  allTeams :: "jsstring list"

definition initialState :: state where
  "initialState = \<lparr>results = [], traceBranchMap = [], allTeams = []\<rparr>"

definition has :: "('k \<times> 'v) list \<Rightarrow> 'k \<Rightarrow> bool" where
  "has m k \<longleftrightarrow> map_of m k \<noteq> None"

text \<open>
  \<open>if (!results.has(traceId)) results.set(traceId, new Map());
  results.get(traceId)?.set(teamName, status)\<close>
\<close>

definition recordStatus :: "jsstring \<Rightarrow> jsstring \<Rightarrow> Status \<Rightarrow> resultTable \<Rightarrow> resultTable" where
  "recordStatus traceId teamName status rs =
     (let rs1 = (if \<not> has rs traceId then AList.update traceId [] rs else rs)
      in case map_of rs1 traceId of
           None \<Rightarrow> rs1
         | Some m \<Rightarrow> AList.update traceId (AList.update teamName status m) rs1)"

text \<open>
  \<open>if (!traceBranchMap.has(traceId)) { if (existsSync(traceDir)) traceBranchMap.set(traceId, branch) }\<close>
\<close>

definition recordBranch ::
  "branch \<Rightarrow> jsstring \<Rightarrow> (jsstring \<times> jsstring) list \<Rightarrow> (jsstring \<times> jsstring) list" where
  "recordBranch b traceId tbm =
     (if \<not> has tbm traceId then
        (if traceId \<in> set (traceDirs b) then AList.update traceId (branchName b) tbm else tbm)
      else tbm)"

text \<open>The body of \<open>for (const line of lines)\<close>.\<close>

definition processLine :: "variant \<Rightarrow> branch \<Rightarrow> jsstring \<Rightarrow> jsstring \<Rightarrow> state \<Rightarrow> state" where
  "processLine v b teamName line st =
     (case lineMatch v line of
        None \<Rightarrow> st
      | Some (status, traceId) \<Rightarrow>
          st\<lparr>results := recordStatus traceId teamName status (results st),
             traceBranchMap :=
               (case v of
                  Full \<Rightarrow> recordBranch b traceId (traceBranchMap st)
                | Simplified \<Rightarrow> traceBranchMap st)\<rparr>)"

text \<open>\<open>file.replace("summary_", "").replace(".txt", "")\<close>\<close>

definition teamNameOf :: "jsstring \<Rightarrow> jsstring" where
  "teamNameOf file = replaceFirst (replaceFirst file (js ''summary_'') []) (js ''.txt'') []"

text \<open>
  \<open>for (const file of files)\<close>. When \<open>readFileSync\<close> throws, the team has been added
  already and the rest of the branch is abandoned to the \<open>catch\<close>.
\<close>

fun processFiles ::
  "variant \<Rightarrow> branch \<Rightarrow> (jsstring \<times> jsstring option) list \<Rightarrow> state \<Rightarrow> state" where
  "processFiles v b [] st = st"
| "processFiles v b ((file, content) # files) st =
     (let teamName = teamNameOf file;
          st1 = st\<lparr>allTeams := setAdd teamName (allTeams st)\<rparr>
      in case content of
           None \<Rightarrow> st1
         | Some text \<Rightarrow>
             processFiles v b files (fold (processLine v b teamName) (split 0x000A text) st1))"

definition isSummaryFile :: "jsstring \<Rightarrow> bool" where
  "isSummaryFile f \<longleftrightarrow> startsWith f (js ''summary_'') \<and> endsWith f (js ''.txt'')"

text \<open>The body of \<open>for (const branch of branches)\<close> with its \<open>try\<close>/\<open>catch\<close>.\<close>

definition processBranch :: "variant \<Rightarrow> branch \<Rightarrow> state \<Rightarrow> state" where
  "processBranch v b st =
     (if \<not> checkoutOk b then st
      else case summariesDir b of
             None \<Rightarrow> st
           | Some entries \<Rightarrow>
               (let files = filter (\<lambda>(f, content). isSummaryFile f) entries
                in if length files > 0 then processFiles v b files st else st))"

definition aggregate :: "variant \<Rightarrow> branch list \<Rightarrow> state" where
  "aggregate v branches = fold (processBranch v) branches initialState"

section \<open>Table generation\<close>

definition REPO_URL :: jsstring where
  "REPO_URL = js ''https://github.com/w3f/jam-conformance''"

definition TRACES_REL_PATH :: jsstring where
  "TRACES_REL_PATH = js ''fuzz-reports/0.7.2/traces''"

text \<open>\<open>Array.from(results.keys()).sort()\<close>: the default sort, by code units.\<close>

definition allTraces :: "resultTable \<Rightarrow> jsstring list" where
  "allTraces rs = sort (map fst rs)"

text \<open>
  The comparator of index.ts. \<open>localeCompare\<close> is the collation of the host and is a
  parameter of the model.
\<close>

definition teamCompare :: "(jsstring \<Rightarrow> jsstring \<Rightarrow> int) \<Rightarrow> jsstring \<Rightarrow> jsstring \<Rightarrow> int" where
  "teamCompare localeCompare a b =
     (if a = js ''typeberry'' then - 1
      else if b = js ''typeberry'' then 1
      else localeCompare a b)"

text \<open>
  index.ts: \<open>Array.from(allTeams).sort((a, b) => \<dots>)\<close>;
  the simplified file: \<open>Array.from(allTeams).sort()\<close>.
\<close>

fun sortedTeams ::
  "variant \<Rightarrow> (jsstring \<Rightarrow> jsstring \<Rightarrow> int) \<Rightarrow> jsstring list \<Rightarrow> jsstring list" where
  "sortedTeams Full localeCompare teams = sortBy (teamCompare localeCompare) teams"
| "sortedTeams Simplified localeCompare teams = sort teams"

text \<open>\<open>results.get(trace)?.get(team)\<close>\<close>

definition getStatus :: "resultTable \<Rightarrow> jsstring \<Rightarrow> jsstring \<Rightarrow> Status option" where
  "getStatus rs trace team =
     (case map_of rs trace of
        None \<Rightarrow> None
      | Some m \<Rightarrow> map_of m team)"

text \<open>The inner loop over \<open>sortedTeams\<close> that sets \<open>hasFailure\<close> and breaks.\<close>

fun hasFailure :: "teamStatusMap \<Rightarrow> jsstring list \<Rightarrow> bool" where
  "hasFailure m [] = False"
| "hasFailure m (team # teams) =
     (if map_of m team = Some Red then True else hasFailure m teams)"

text \<open>The body of \<open>for (const trace of allTraces)\<close>, pushing to one of the two arrays.\<close>

definition classify ::
  "resultTable \<Rightarrow> jsstring list \<Rightarrow> jsstring \<Rightarrow> jsstring list \<times> jsstring list \<Rightarrow>
   jsstring list \<times> jsstring list" where
  "classify rs teams trace groups =
     (let failure = (case map_of rs trace of
                       None \<Rightarrow> False
                     | Some m \<Rightarrow> hasFailure m teams)
      in if failure then (fst groups @ [trace], snd groups)
         else (fst groups, snd groups @ [trace]))"

definition partitionTraces ::
  "resultTable \<Rightarrow> jsstring list \<Rightarrow> jsstring list \<Rightarrow> jsstring list \<times> jsstring list" where
  "partitionTraces rs teams traces = fold (classify rs teams) traces ([], [])"

definition interestingTraces :: "resultTable \<Rightarrow> jsstring list \<Rightarrow> jsstring list \<Rightarrow> jsstring list" where
  "interestingTraces rs teams traces = fst (partitionTraces rs teams traces)"

definition boringTraces :: "resultTable \<Rightarrow> jsstring list \<Rightarrow> jsstring list \<Rightarrow> jsstring list" where
  "boringTraces rs teams traces = snd (partitionTraces rs teams traces)"

text \<open>\<open>linkify\<close>; \<open>if (branch)\<close> is false for a missing entry and for the empty string.\<close>

definition linkify :: "(jsstring \<times> jsstring) list \<Rightarrow> jsstring \<Rightarrow> jsstring" where
  "linkify tbm traceId =
     (case map_of tbm traceId of
        None \<Rightarrow> traceId
      | Some branch \<Rightarrow>
          (if branch \<noteq> [] then
             js ''['' @ traceId @ js '']('' @ REPO_URL @ js ''/tree/'' @ branch @ js ''/'' @
             TRACES_REL_PATH @ js ''/'' @ traceId @ js '')''
           else traceId))"

text \<open>
  The counters \<open>red\<close>, \<open>green\<close>, \<open>unknown\<close> of one team over \<open>allTraces\<close>. index.ts keeps
  them in the map \<open>teamStats\<close>, written and read under the same list of teams; the
  simplified file computes them in the row of the team.
\<close>

record stats =
  red :: nat
  green :: nat
  unknown :: nat

definition countStatus :: "resultTable \<Rightarrow> jsstring \<Rightarrow> jsstring \<Rightarrow> stats \<Rightarrow> stats" where
  "countStatus rs team trace c =
     (case getStatus rs trace team of
        Some Red \<Rightarrow> c\<lparr>red := red c + 1\<rparr>
      | Some Green \<Rightarrow> c\<lparr>green := green c + 1\<rparr>
      | None \<Rightarrow> c\<lparr>unknown := unknown c + 1\<rparr>)"

definition teamStats :: "resultTable \<Rightarrow> jsstring list \<Rightarrow> jsstring \<Rightarrow> stats" where
  "teamStats rs traces team = fold (countStatus rs team) traces \<lparr>red = 0, green = 0, unknown = 0\<rparr>"

text \<open>\<open>results.get(trace)?.get(team) || "\<dots>"\<close>: the glyph, or the white circle.\<close>

definition statusCell :: "resultTable \<Rightarrow> jsstring \<Rightarrow> jsstring \<Rightarrow> jsstring" where
  "statusCell rs trace team =
     (case getStatus rs trace team of
        None \<Rightarrow> WHITE
      | Some status \<Rightarrow> glyph status)"

text \<open>A summary row of index.ts: \<open>row += ` ${count} |`\<close> for each team.\<close>

definition summaryRow :: "jsstring \<Rightarrow> (jsstring \<Rightarrow> nat) \<Rightarrow> jsstring list \<Rightarrow> jsstring" where
  "summaryRow mark count teams =
     fold (\<lambda>team row. row @ js '' '' @ showNat (count team) @ js '' |'') teams
       (js ''| '' @ mark @ js '' |'')"

text \<open>A data row of index.ts: one trace, a cell per team.\<close>

definition traceRow ::
  "resultTable \<Rightarrow> (jsstring \<times> jsstring) list \<Rightarrow> jsstring list \<Rightarrow> jsstring \<Rightarrow> jsstring" where
  "traceRow rs tbm teams trace =
     fold (\<lambda>team row. row @ js '' '' @ statusCell rs trace team @ js '' |'') teams
       (js ''| '' @ linkify tbm trace @ js '' |'')"

text \<open>\<open>mdTable\<close> of index.ts.\<close>

definition mdTable :: "(jsstring \<Rightarrow> jsstring \<Rightarrow> int) \<Rightarrow> state \<Rightarrow> jsstring" where
  "mdTable localeCompare st =
     (let rs = results st;
          traces = allTraces rs;
          teams = sortedTeams Full localeCompare (allTeams st);
          interesting = interestingTraces rs teams traces;
          header = js ''| Trace | '' @ join (js '' | '') teams @ js '' |'' @ NL @
                   js ''|---|'' @ join (js ''|'') (map (\<lambda>t. js ''---'') teams) @ js ''|'' @ NL;
          redRow = summaryRow RED (\<lambda>team. red (teamStats rs traces team)) teams;
          greenRow = summaryRow GREEN (\<lambda>team. green (teamStats rs traces team)) teams;
          unknownRow = summaryRow WHITE (\<lambda>team. unknown (teamStats rs traces team)) teams
      in fold (\<lambda>trace table. table @ traceRow rs (traceBranchMap st) teams trace @ NL) interesting
           (header @ redRow @ NL @ greenRow @ NL @ unknownRow @ NL))"

text \<open>A row of the simplified file: one team, its three counts, a cell per interesting trace.\<close>

definition teamRow :: "resultTable \<Rightarrow> jsstring list \<Rightarrow> jsstring list \<Rightarrow> jsstring \<Rightarrow> jsstring" where
  "teamRow rs traces interesting team =
     (let c = teamStats rs traces team
      in fold (\<lambda>trace row. row @ js '' '' @ statusCell rs trace team @ js '' |'') interesting
           (js ''| '' @ team @ js '' |'' @
            js '' '' @ showNat (red c) @ js '' | '' @ showNat (green c) @ js '' | '' @
            showNat (unknown c) @ js '' |''))"

text \<open>\<open>mdTable\<close> of the simplified file.\<close>

definition mdTableSimplified :: "state \<Rightarrow> jsstring" where
  "mdTableSimplified st =
     (let rs = results st;
          traces = allTraces rs;
          teams = sortedTeams Simplified (\<lambda>a b. 0) (allTeams st);
          interesting = interestingTraces rs teams traces;
          header = js ''| Team | '' @ RED @ js '' | '' @ GREEN @ js '' | '' @ WHITE @ js '' | '' @
                   join (js '' | '') interesting @ js '' |'' @ NL @
                   js ''|---|---|---|---|'' @ join (js ''|'') (map (\<lambda>t. js ''---'') interesting) @
                   js ''|'' @ NL
      in fold (\<lambda>team table. table @ teamRow rs traces interesting team @ NL) teams header)"

fun renderTable :: "variant \<Rightarrow> (jsstring \<Rightarrow> jsstring \<Rightarrow> int) \<Rightarrow> state \<Rightarrow> jsstring" where
  "renderTable Full localeCompare st = mdTable localeCompare st"
| "renderTable Simplified localeCompare st = mdTableSimplified st"

section \<open>Template updater\<close>

definition startMarker :: jsstring where
  "startMarker = js ''<!-- CONFORMANCE_TABLE_START -->''"

definition endMarker :: jsstring where
  "endMarker = js ''<!-- CONFORMANCE_TABLE_END -->''"

text \<open>What the run prints about the README file.\<close>

datatype message = ReadmeUpdated | MarkersNotFound | ReadmeNotFound

text \<open>
  The last block of \<open>main\<close>, on strings. The argument is the string that
  \<open>readFileSync(README_FILE, "utf-8")\<close> returns, \<open>None\<close> when the file does not exist; the
  result is the string the file holds after the run and the message printed.
  \<open>writeFileSync\<close> is called in the first branch only. The bytes of the file are the
  subject of \<open>updateReadmeFile\<close> below.
\<close>

definition updateReadme :: "jsstring option \<Rightarrow> jsstring \<Rightarrow> jsstring option \<times> message" where
  "updateReadme readme table =
     (case readme of
        None \<Rightarrow> (None, ReadmeNotFound)
      | Some readmeContent \<Rightarrow>
          (case (indexOf readmeContent startMarker, indexOf readmeContent endMarker) of
             (Some startIndex, Some endIndex) \<Rightarrow>
               (let before = substring readmeContent 0 (startIndex + length startMarker);
                    after = substringFrom readmeContent endIndex;
                    newContent = before @ NL @ NL @ table @ NL @ after
                in (Some newContent, ReadmeUpdated))
           | _ \<Rightarrow> (Some readmeContent, MarkersNotFound)))"


section \<open>The README file as bytes\<close>

text \<open>
  \<open>writeFileSync(README_FILE, newContent)\<close> writes the UTF-8 encoding of the string: a
  surrogate pair is one code point of four bytes, a surrogate without its partner is
  written as U+FFFD (\<open>EF BF BD\<close>).
\<close>

type_synonym byte = "8 word"

definition isLead :: "unit16 \<Rightarrow> bool" where
  "isLead c \<longleftrightarrow> 0xD800 \<le> c \<and> c \<le> 0xDBFF"

definition isTrail :: "unit16 \<Rightarrow> bool" where
  "isTrail c \<longleftrightarrow> 0xDC00 \<le> c \<and> c \<le> 0xDFFF"

definition encodeCodePoint :: "int \<Rightarrow> byte list" where
  "encodeCodePoint cp =
     (if cp < 0x80 then [of_int cp]
      else if cp < 0x800 then [of_int (0xC0 + cp div 0x40), of_int (0x80 + cp mod 0x40)]
      else if cp < 0x10000 then
        [of_int (0xE0 + cp div 0x1000), of_int (0x80 + cp div 0x40 mod 0x40),
         of_int (0x80 + cp mod 0x40)]
      else
        [of_int (0xF0 + cp div 0x40000), of_int (0x80 + cp div 0x1000 mod 0x40),
         of_int (0x80 + cp div 0x40 mod 0x40), of_int (0x80 + cp mod 0x40)])"

definition encodeUnit :: "unit16 \<Rightarrow> byte list" where
  "encodeUnit c = (if isLead c \<or> isTrail c then [0xEF, 0xBF, 0xBD] else encodeCodePoint (uint c))"

function utf8Encode :: "jsstring \<Rightarrow> byte list" where
  "utf8Encode [] = []"
| "utf8Encode [a] = encodeUnit a"
| "utf8Encode (a # b # rest) =
     (if isLead a \<and> isTrail b then
        encodeCodePoint (0x10000 + (uint a - 0xD800) * 0x400 + (uint b - 0xDC00))
      else encodeUnit a) @
     utf8Encode (if isLead a \<and> isTrail b then rest else b # rest)"
  by pat_completeness auto
termination
  by (relation "measure length") auto

text \<open>
  The file, read and written. \<open>decode\<close> is what \<open>readFileSync(README_FILE, "utf-8")\<close>
  makes of the bytes of the file; it belongs to the host and is a parameter of the
  model. The argument is the content of README.md, \<open>None\<close> when the file does not exist;
  the result is the content of the file after the run and the message printed. The file
  is written only when both markers are found.
\<close>

definition updateReadmeFile ::
  "(byte list \<Rightarrow> jsstring) \<Rightarrow> byte list option \<Rightarrow> jsstring \<Rightarrow> byte list option \<times> message" where
  "updateReadmeFile decode file table =
     (case file of
        None \<Rightarrow> (None, ReadmeNotFound)
      | Some bytes \<Rightarrow>
          (case updateReadme (Some (decode bytes)) table of
             (Some newContent, ReadmeUpdated) \<Rightarrow> (Some (utf8Encode newContent), ReadmeUpdated)
           | (other, msg) \<Rightarrow> (Some bytes, msg)))"

text \<open>
  The UTF-8 decoder of the Encoding standard, as one instance of \<open>decode\<close>. Its state is
  the code point read so far, the number of bytes still needed and the bounds of the
  next byte, all as integers. A byte that cannot start a sequence becomes U+FFFD; a
  byte that cannot continue the sequence read so far ends it, the sequence becomes
  U+FFFD, and the byte is read again as the start of the next one; a sequence cut short
  by the end of the input becomes U+FFFD; a code point above U+FFFF becomes a surrogate
  pair.
\<close>

type_synonym decoderState = "int \<times> int \<times> int \<times> int"

definition codePointUnits :: "int \<Rightarrow> jsstring" where
  "codePointUnits cp =
     (if cp < 0x10000 then [of_int cp]
      else [of_int (0xD800 + (cp - 0x10000) div 0x400),
            of_int (0xDC00 + (cp - 0x10000) mod 0x400)])"

definition startStep :: "byte \<Rightarrow> jsstring \<times> decoderState" where
  "startStep b =
     (if uint b \<le> 0x7F then ([of_int (uint b)], (0, 0, 0x80, 0xBF))
      else if 0xC2 \<le> uint b \<and> uint b \<le> 0xDF then ([], (uint b - 0xC0, 1, 0x80, 0xBF))
      else if 0xE0 \<le> uint b \<and> uint b \<le> 0xEF then
        ([], (uint b - 0xE0, 2,
              (if uint b = 0xE0 then 0xA0 else 0x80), (if uint b = 0xED then 0x9F else 0xBF)))
      else if 0xF0 \<le> uint b \<and> uint b \<le> 0xF4 then
        ([], (uint b - 0xF0, 3,
              (if uint b = 0xF0 then 0x90 else 0x80), (if uint b = 0xF4 then 0x8F else 0xBF)))
      else ([0xFFFD], (0, 0, 0x80, 0xBF)))"

fun decodeStep :: "decoderState \<Rightarrow> byte \<Rightarrow> jsstring \<times> decoderState" where
  "decodeStep (cp, needed, lower, upper) b =
     (if needed = 0 then startStep b
      else if uint b < lower \<or> upper < uint b then
        (0xFFFD # fst (startStep b), snd (startStep b))
      else if needed = 1 then
        (codePointUnits (cp * 0x40 + (uint b - 0x80)), (0, 0, 0x80, 0xBF))
      else ([], (cp * 0x40 + (uint b - 0x80), needed - 1, 0x80, 0xBF)))"

fun utf8DecodeFrom :: "decoderState \<Rightarrow> byte list \<Rightarrow> jsstring" where
  "utf8DecodeFrom st [] = (if fst (snd st) = 0 then [] else [0xFFFD])"
| "utf8DecodeFrom st (b # bs) =
     fst (decodeStep st b) @ utf8DecodeFrom (snd (decodeStep st b)) bs"

definition utf8Decode :: "byte list \<Rightarrow> jsstring" where
  "utf8Decode bytes = utf8DecodeFrom (0, 0, 0x80, 0xBF) bytes"

section \<open>Notions of the specification\<close>

text \<open>
  An extracted fact is a (team, trace id, status) triple. \<open>runFacts\<close> lists the facts of
  a run in the order of extraction: branch by branch in listing order, file by file,
  line by line. A branch whose checkout fails contributes none, and a file that cannot
  be read ends its branch.
\<close>

type_synonym fact = "jsstring \<times> jsstring \<times> Status"

definition lineFacts :: "variant \<Rightarrow> jsstring \<Rightarrow> jsstring \<Rightarrow> fact list" where
  "lineFacts v teamName text =
     map (\<lambda>(status, traceId). (teamName, traceId, status))
       (List.map_filter (lineMatch v) (split 0x000A text))"

fun filesFacts :: "variant \<Rightarrow> (jsstring \<times> jsstring option) list \<Rightarrow> fact list" where
  "filesFacts v [] = []"
| "filesFacts v ((file, None) # files) = []"
| "filesFacts v ((file, Some text) # files) =
     lineFacts v (teamNameOf file) text @ filesFacts v files"

definition branchFacts :: "variant \<Rightarrow> branch \<Rightarrow> fact list" where
  "branchFacts v b =
     (if checkoutOk b then
        (case summariesDir b of
           None \<Rightarrow> []
         | Some entries \<Rightarrow> filesFacts v (filter (\<lambda>(f, content). isSummaryFile f) entries))
      else [])"

definition runFacts :: "variant \<Rightarrow> branch list \<Rightarrow> fact list" where
  "runFacts v branches = concat (map (branchFacts v) branches)"

text \<open>The status of the last fact of the list for a (trace, team) pair, if there is one.\<close>

fun lastStatus :: "fact list \<Rightarrow> jsstring \<Rightarrow> jsstring \<Rightarrow> Status option" where
  "lastStatus [] trace team = None"
| "lastStatus ((tm, tr, s) # fs) trace team =
     (case lastStatus fs trace team of
        Some s' \<Rightarrow> Some s'
      | None \<Rightarrow> (if tm = team \<and> tr = trace then Some s else None))"

text \<open>The trace identifiers seen in a run.\<close>

definition seenTraces :: "variant \<Rightarrow> branch list \<Rightarrow> jsstring set" where
  "seenTraces v branches = (\<lambda>(tm, tr, s). tr) ` set (runFacts v branches)"

text \<open>
  Two states hold the same result table, team set and trace-to-branch association when
  they agree as maps and sets, whatever the insertion order of their entries.
\<close>

definition isMap :: "('k \<times> 'v) list \<Rightarrow> bool" where
  "isMap m \<longleftrightarrow> distinct (map fst m)"

definition sameResults :: "resultTable \<Rightarrow> resultTable \<Rightarrow> bool" where
  "sameResults rs rs' \<longleftrightarrow>
     isMap rs \<and> isMap rs' \<and> set (map fst rs) = set (map fst rs') \<and>
     (\<forall>trace team. getStatus rs trace team = getStatus rs' trace team)"

definition sameTeams :: "jsstring list \<Rightarrow> jsstring list \<Rightarrow> bool" where
  "sameTeams ts ts' \<longleftrightarrow> distinct ts \<and> distinct ts' \<and> set ts = set ts'"

definition sameBranchMap :: "(jsstring \<times> jsstring) list \<Rightarrow> (jsstring \<times> jsstring) list \<Rightarrow> bool" where
  "sameBranchMap m m' \<longleftrightarrow> (\<forall>trace. map_of m trace = map_of m' trace)"

text \<open>
  A consistent comparator orders any two elements and is transitive: what \<open>sort\<close> needs
  of \<open>localeCompare\<close> for its result to be sorted.
\<close>

definition consistent :: "('a \<Rightarrow> 'a \<Rightarrow> int) \<Rightarrow> bool" where
  "consistent cmp \<longleftrightarrow>
     (\<forall>a b. cmp a b \<le> 0 \<or> cmp b a \<le> 0) \<and>
     (\<forall>a b c. cmp a b \<le> 0 \<and> cmp b c \<le> 0 \<longrightarrow> cmp a c \<le> 0)"

text \<open>
  A comparator is a total order on a set when it orders any two elements of the set, is
  transitive on them, and ranks no two different elements of the set as equal: then the
  result of \<open>sort\<close> on the elements of the set does not depend on the order of its
  input. Nothing is asked of the comparator outside the set.
\<close>

definition totalOrderOn :: "'a set \<Rightarrow> ('a \<Rightarrow> 'a \<Rightarrow> int) \<Rightarrow> bool" where
  "totalOrderOn A cmp \<longleftrightarrow>
     (\<forall>a\<in>A. \<forall>b\<in>A. cmp a b \<le> 0 \<or> cmp b a \<le> 0) \<and>
     (\<forall>a\<in>A. \<forall>b\<in>A. \<forall>c\<in>A. cmp a b \<le> 0 \<and> cmp b c \<le> 0 \<longrightarrow> cmp a c \<le> 0) \<and>
     (\<forall>a\<in>A. \<forall>b\<in>A. cmp a b \<le> 0 \<and> cmp b a \<le> 0 \<longrightarrow> a = b)"

text \<open>The order of a list under a comparator.\<close>

definition sortedBy :: "('a \<Rightarrow> 'a \<Rightarrow> int) \<Rightarrow> 'a list \<Rightarrow> bool" where
  "sortedBy cmp xs \<longleftrightarrow> sorted_wrt (\<lambda>a b. cmp a b \<le> 0) xs"

text \<open>A collation that compares by code units, as one instance of \<open>localeCompare\<close>.\<close>

definition codeUnitCompare :: "jsstring \<Rightarrow> jsstring \<Rightarrow> int" where
  "codeUnitCompare a b = (if a < b then - 1 else if a = b then 0 else 1)"

text \<open>
  A collation that ranks canonically equivalent strings as equal, as ECMAScript requires
  of \<open>localeCompare\<close>, for the one equivalence of U+0065 U+0301 (e with a combining
  acute accent) and U+00E9 (e with acute): the strings are compared by code units after
  the pair is composed.
\<close>

fun composeAcute :: "jsstring \<Rightarrow> jsstring" where
  "composeAcute [] = []"
| "composeAcute [a] = [a]"
| "composeAcute (a # b # rest) =
     (if a = 0x0065 \<and> b = 0x0301 then 0x00E9 # composeAcute rest
      else a # composeAcute (b # rest))"

definition canonicalCompare :: "jsstring \<Rightarrow> jsstring \<Rightarrow> int" where
  "canonicalCompare a b = codeUnitCompare (composeAcute a) (composeAcute b)"

text \<open>
  The decimal numeral of a number, said without \<open>showNat\<close>: a non-empty string of digits
  with no leading zero, except for the numeral of zero, whose value is the number.
\<close>

definition decimalValue :: "jsstring \<Rightarrow> nat" where
  "decimalValue s = foldl (\<lambda>acc d. 10 * acc + (unat d - 48)) 0 s"

definition isDecimal :: "jsstring \<Rightarrow> nat \<Rightarrow> bool" where
  "isDecimal s n \<longleftrightarrow>
     s \<noteq> [] \<and> (\<forall>d\<in>set s. isDigit d) \<and> (hd s = 0x30 \<longrightarrow> s = [0x30]) \<and> decimalValue s = n"

text \<open>Recording one fact in the result table.\<close>

fun recordFact :: "fact \<Rightarrow> resultTable \<Rightarrow> resultTable" where
  "recordFact (tm, tr, s) rs = recordStatus tr tm s rs"

text \<open>Every team with a recorded status is in the set of discovered teams.\<close>

definition teamsKnown :: "state \<Rightarrow> bool" where
  "teamsKnown st \<longleftrightarrow>
     (\<forall>tr tm s. getStatus (results st) tr tm = Some s \<longrightarrow> tm \<in> set (allTeams st))"

text \<open>
  The number of traces seen in the run for which the status recorded for the team at the
  end of the run is the given one: \<open>Some Red\<close> for failing, \<open>Some Green\<close> for passing,
  \<open>None\<close> for unknown (no recorded status).
\<close>

definition recordedCount :: "variant \<Rightarrow> branch list \<Rightarrow> jsstring \<Rightarrow> Status option \<Rightarrow> nat" where
  "recordedCount v branches team status =
     card {trace \<in> seenTraces v branches.
             getStatus (results (aggregate v branches)) trace team = status}"

text \<open>A trace for which one of the listed teams has the recorded status fail.\<close>

definition failing :: "resultTable \<Rightarrow> jsstring list \<Rightarrow> jsstring \<Rightarrow> bool" where
  "failing rs teams trace \<longleftrightarrow> (\<exists>team\<in>set teams. getStatus rs trace team = Some Red)"

section \<open>A small working copy\<close>

text \<open>
  Branch \<open>b1\<close> holds \<open>summary_alice.txt\<close> with a passing trace 100 and a failing trace
  200, and the directory of trace 100; branch \<open>b2\<close> holds \<open>summary_bob.txt\<close> with a
  failing trace 100; branch \<open>b3\<close> holds \<open>summary_alice.txt\<close> with a failing trace 100;
  branch \<open>b4\<close> holds \<open>summary_typeberry.txt\<close> with a passing trace 100 and
  \<open>summary_alice.txt\<close> with a failing trace 100.
\<close>

definition exB1 :: branch where
  "exB1 = \<lparr>branchName = js ''b1'', checkoutOk = True,
     summariesDir =
       Some [(js ''summary_alice.txt'', Some (GREEN @ js '' 100'' @ NL @ RED @ js '' 200''))],
     traceDirs = [js ''100'']\<rparr>"

definition exB2 :: branch where
  "exB2 = \<lparr>branchName = js ''b2'', checkoutOk = True,
     summariesDir = Some [(js ''summary_bob.txt'', Some (RED @ js '' 100''))],
     traceDirs = []\<rparr>"

definition exB3 :: branch where
  "exB3 = \<lparr>branchName = js ''b3'', checkoutOk = True,
     summariesDir = Some [(js ''summary_alice.txt'', Some (RED @ js '' 100''))],
     traceDirs = []\<rparr>"

definition exB4 :: branch where
  "exB4 = \<lparr>branchName = js ''b4'', checkoutOk = True,
     summariesDir = Some [(js ''summary_typeberry.txt'', Some (GREEN @ js '' 100'')),
                          (js ''summary_alice.txt'', Some (RED @ js '' 100''))],
     traceDirs = []\<rparr>"

text \<open>
  Branches \<open>b5\<close> and \<open>b6\<close> hold the same two summary files, listed in opposite orders:
  one of a team named U+00E9, without results, and one of a team named U+0065 U+0301,
  with a failing trace 100.
\<close>

definition exB5 :: branch where
  "exB5 = \<lparr>branchName = js ''b5'', checkoutOk = True,
     summariesDir =
       Some [(js ''summary_'' @ [0x00E9] @ js ''.txt'', Some []),
             (js ''summary_'' @ [0x0065, 0x0301] @ js ''.txt'', Some (RED @ js '' 100''))],
     traceDirs = []\<rparr>"

definition exB6 :: branch where
  "exB6 = \<lparr>branchName = js ''b6'', checkoutOk = True,
     summariesDir =
       Some [(js ''summary_'' @ [0x0065, 0x0301] @ js ''.txt'', Some (RED @ js '' 100'')),
             (js ''summary_'' @ [0x00E9] @ js ''.txt'', Some [])],
     traceDirs = []\<rparr>"

text \<open>The bytes of an ASCII literal.\<close>

definition asciiBytes :: "string \<Rightarrow> byte list" where
  "asciiBytes s = map (\<lambda>c. of_nat (of_char c)) s"

text \<open>
  A README in UTF-8: a heading with U+00E9 (\<open>C3 A9\<close>), the start marker, the text
  \<open>old\<close>, the end marker, the red circle (\<open>F0 9F 94 B4\<close>) and a newline.
\<close>

definition exReadme :: "byte list" where
  "exReadme = [0x23, 0x20, 0xC3, 0xA9] @ asciiBytes ''<!-- CONFORMANCE_TABLE_START -->'' @
              [0x6F, 0x6C, 0x64] @ asciiBytes ''<!-- CONFORMANCE_TABLE_END -->'' @
              [0xF0, 0x9F, 0x94, 0xB4, 0x0A]"

section \<open>Properties of the line parser\<close>

lemma idChar_not_space: "isIdChar v c \<Longrightarrow> \<not> isSpace c"
  by (cases v) (auto simp: isSpace_def isDigit_def word_le_nat_alt)

lemma matchGlyph_Some: "matchGlyph s = Some (st, rest) \<Longrightarrow> s = glyph st @ rest"
  by (cases s rule: matchGlyph.cases) (auto simp: RED_def GREEN_def split: if_splits)

lemma matchGlyph_glyph: "matchGlyph (glyph st @ rest) = Some (st, rest)"
  by (cases st) (simp_all add: RED_def GREEN_def)

lemma matchAt_sound:
  assumes "matchAt v s = Some (st, tid)"
  shows "\<exists>ws post. s = glyph st @ ws @ tid @ post \<and> ws \<noteq> [] \<and> (\<forall>c\<in>set ws. isSpace c) \<and>
           tid \<noteq> [] \<and> (\<forall>c\<in>set tid. isIdChar v c)"
proof -
  from assms obtain rest where g: "matchGlyph s = Some (st, rest)"
    and ws: "takeWhile isSpace rest \<noteq> []"
    and tid: "tid = takeWhile (isIdChar v) (dropWhile isSpace rest)" "tid \<noteq> []"
    by (auto simp: matchAt_def Let_def split: option.splits if_splits)
  let ?ws = "takeWhile isSpace rest"
  let ?post = "dropWhile (isIdChar v) (dropWhile isSpace rest)"
  have "rest = ?ws @ tid @ ?post"
    by (simp add: tid(1))
  with matchGlyph_Some [OF g] have "s = glyph st @ ?ws @ tid @ ?post"
    by simp
  moreover have "\<forall>c\<in>set ?ws. isSpace c"
    by (auto dest: set_takeWhileD)
  moreover have "\<forall>c\<in>set tid. isIdChar v c"
    unfolding tid(1) by (auto dest: set_takeWhileD)
  ultimately show ?thesis
    using ws tid(2) by blast
qed

lemma matchAt_complete:
  assumes "ws \<noteq> []" "\<forall>c\<in>set ws. isSpace c" "ident \<noteq> []" "\<forall>c\<in>set ident. isIdChar v c"
  shows "\<exists>tid. matchAt v (glyph st @ ws @ ident @ post) = Some (st, tid)"
proof -
  obtain d ds where ident: "ident = d # ds"
    using assms(3) by (cases ident) auto
  have d: "isIdChar v d" "\<not> isSpace d"
    using assms(4) idChar_not_space by (auto simp: ident)
  have tw: "takeWhile isSpace (ws @ ident @ post) = ws"
    using assms(2) d by (simp add: ident)
  have dw: "dropWhile isSpace (ws @ ident @ post) = ident @ post"
    using assms(2) d by (simp add: ident)
  have tid: "takeWhile (isIdChar v) (ident @ post) \<noteq> []"
    using d by (simp add: ident)
  show ?thesis
    using assms(1) tid by (simp add: matchAt_def matchGlyph_glyph tw dw)
qed

lemma lineMatch_sound:
  "lineMatch v line = Some (st, tid) \<Longrightarrow>
   \<exists>pre ws post. line = pre @ glyph st @ ws @ tid @ post \<and> ws \<noteq> [] \<and> (\<forall>c\<in>set ws. isSpace c) \<and>
           tid \<noteq> [] \<and> (\<forall>c\<in>set tid. isIdChar v c)"
proof (induction line)
  case Nil
  then show ?case by simp
next
  case (Cons c cs)
  show ?case
  proof (cases "matchAt v (c # cs)")
    case None
    with Cons.prems have "lineMatch v cs = Some (st, tid)" by simp
    from Cons.IH [OF this] obtain pre ws post where
      "cs = pre @ glyph st @ ws @ tid @ post" "ws \<noteq> []" "\<forall>c\<in>set ws. isSpace c"
      "tid \<noteq> []" "\<forall>c\<in>set tid. isIdChar v c" by blast
    then have "c # cs = (c # pre) @ glyph st @ ws @ tid @ post" by simp
    then show ?thesis
      using \<open>ws \<noteq> []\<close> \<open>\<forall>c\<in>set ws. isSpace c\<close> \<open>tid \<noteq> []\<close> \<open>\<forall>c\<in>set tid. isIdChar v c\<close> by blast
  next
    case (Some m)
    with Cons.prems have "matchAt v (c # cs) = Some (st, tid)" by simp
    from matchAt_sound [OF this] obtain ws post where
      "c # cs = [] @ glyph st @ ws @ tid @ post" "ws \<noteq> []" "\<forall>c\<in>set ws. isSpace c"
      "tid \<noteq> []" "\<forall>c\<in>set tid. isIdChar v c" by auto
    then show ?thesis by blast
  qed
qed

lemma lineMatch_complete:
  assumes "\<exists>tid. matchAt v s = Some (st, tid)"
  shows "\<exists>p. lineMatch v (pre @ s) = Some p"
proof (induction pre)
  case Nil
  from assms obtain tid where m: "matchAt v s = Some (st, tid)" by blast
  then have "s \<noteq> []" by (auto simp: matchAt_def)
  then obtain c cs where "s = c # cs" by (cases s) auto
  with m show ?case by simp
next
  case (Cons a pre)
  then show ?case by (cases "matchAt v (a # pre @ s)") auto
qed

text \<open>
  C3. For every line, the parser emits exactly one (status, trace id) pair when the line
  matches the pattern (a status glyph, one or more white space characters, one or more
  identifier characters: digits, and also underscores in index.ts) and emits nothing,
  without any error, when it does not. The pair emitted is the glyph and the identifier
  of a match in the line.
\<close>

theorem parser_one_pair_iff_match:
  "(matchesPattern v line \<longrightarrow> (\<exists>p. lineMatch v line = Some p)) \<and>
   (\<not> matchesPattern v line \<longrightarrow> lineMatch v line = None) \<and>
   (\<forall>st tid. lineMatch v line = Some (st, tid) \<longrightarrow>
      (\<exists>pre ws post. line = pre @ glyph st @ ws @ tid @ post \<and> ws \<noteq> [] \<and>
         (\<forall>c\<in>set ws. isSpace c) \<and> tid \<noteq> [] \<and> (\<forall>c\<in>set tid. isIdChar v c)))"
proof (intro conjI impI allI)
  assume "matchesPattern v line"
  then obtain pre g ws ident post where
    l: "line = pre @ g @ ws @ ident @ post" and g: "g = RED \<or> g = GREEN" and
    c: "ws \<noteq> []" "\<forall>c\<in>set ws. isSpace c" "ident \<noteq> []" "\<forall>c\<in>set ident. isIdChar v c"
    unfolding matchesPattern_def by blast
  from g obtain st where "g = glyph st"
    by (metis glyph.simps)
  with matchAt_complete [OF c] lineMatch_complete l
  show "\<exists>p. lineMatch v line = Some p" by metis
next
  fix st tid assume "lineMatch v line = Some (st, tid)"
  from lineMatch_sound [OF this]
  show "\<exists>pre ws post. line = pre @ glyph st @ ws @ tid @ post \<and> ws \<noteq> [] \<and>
         (\<forall>c\<in>set ws. isSpace c) \<and> tid \<noteq> [] \<and> (\<forall>c\<in>set tid. isIdChar v c)" .
next
  assume n: "\<not> matchesPattern v line"
  show "lineMatch v line = None"
  proof (rule ccontr)
    assume "lineMatch v line \<noteq> None"
    then obtain st tid where "lineMatch v line = Some (st, tid)" by auto
    from lineMatch_sound [OF this] obtain pre ws post where
      "line = pre @ glyph st @ ws @ tid @ post" "ws \<noteq> []" "\<forall>c\<in>set ws. isSpace c"
      "tid \<noteq> []" "\<forall>c\<in>set tid. isIdChar v c" by blast
    moreover have "glyph st = RED \<or> glyph st = GREEN" by (cases st) auto
    ultimately have "matchesPattern v line"
      unfolding matchesPattern_def by blast
    with n show False by contradiction
  qed
qed


theorem parser_one_pair_iff_match_witness:
  "matchesPattern Full (RED @ js '' 100'') \<and>
   lineMatch Full (RED @ js '' 100'') = Some (Red, js ''100'') \<and>
   \<not> matchesPattern Full (js ''100'') \<and> lineMatch Full (js ''100'') = None"
proof -
  have a: "lineMatch Full (RED @ js '' 100'') = Some (Red, js ''100'')"
    by (simp add: js_def RED_def GREEN_def matchAt_def isSpace_def isDigit_def)
  have b: "lineMatch Full (js ''100'') = None"
    by (simp add: js_def RED_def GREEN_def matchAt_def)
  from parser_one_pair_iff_match [of Full "RED @ js '' 100''"] a
  have "matchesPattern Full (RED @ js '' 100'')" by auto
  moreover from parser_one_pair_iff_match [of Full "js ''100''"] b
  have "\<not> matchesPattern Full (js ''100'')" by auto
  ultimately show ?thesis using a b by simp
qed

section \<open>The result table as a fold over the extracted facts\<close>

lemma getStatus_recordStatus:
  "getStatus (recordStatus tr tm s rs) tr' tm' =
     (if tr' = tr \<and> tm' = tm then Some s else getStatus rs tr' tm')"
  by (auto simp: getStatus_def recordStatus_def has_def Let_def update_conv'
      split: option.splits)

lemma keys_recordStatus: "fst ` set (recordStatus tr tm s rs) = insert tr (fst ` set rs)"
  by (auto simp: recordStatus_def has_def Let_def dom_update map_of_eq_None_iff
      split: option.splits)

lemma isMap_recordStatus: "isMap rs \<Longrightarrow> isMap (recordStatus tr tm s rs)"
  by (auto simp: recordStatus_def has_def Let_def isMap_def distinct_update
      split: option.splits)

lemma map_of_recordStatus:
  "map_of (recordStatus tr tm s rs) tr' = Some m \<Longrightarrow>
   (tr' = tr \<and> m \<noteq> []) \<or> (tr' \<noteq> tr \<and> map_of rs tr' = Some m)"
  by (auto simp: recordStatus_def has_def Let_def update_conv'
      split: option.splits if_splits)

lemma getStatus_fold_recordFact:
  "getStatus (fold recordFact fs rs) tr tm =
     (case lastStatus fs tr tm of Some s \<Rightarrow> Some s | None \<Rightarrow> getStatus rs tr tm)"
proof (induction fs arbitrary: rs)
  case Nil
  then show ?case by simp
next
  case (Cons f fs)
  obtain tm' tr' s' where f: "f = (tm', tr', s')" by (cases f) auto
  show ?case
    by (simp add: f Cons.IH getStatus_recordStatus split: option.splits)
qed

lemma keys_fold_recordFact:
  "fst ` set (fold recordFact fs rs) = fst ` set rs \<union> (\<lambda>(tm, tr, s). tr) ` set fs"
proof (induction fs arbitrary: rs)
  case Nil
  then show ?case by simp
next
  case (Cons f fs)
  obtain tm' tr' s' where f: "f = (tm', tr', s')" by (cases f) auto
  show ?case
    by (simp add: f Cons.IH keys_recordStatus)
qed

lemma isMap_fold_recordFact: "isMap rs \<Longrightarrow> isMap (fold recordFact fs rs)"
proof (induction fs arbitrary: rs)
  case Nil
  then show ?case by simp
next
  case (Cons f fs)
  obtain tm' tr' s' where f: "f = (tm', tr', s')" by (cases f) auto
  from Cons.prems have "isMap (recordFact f rs)"
    by (simp add: f isMap_recordStatus)
  from Cons.IH [OF this] show ?case by simp
qed

lemma nonempty_fold_recordFact:
  assumes "\<forall>tr m. map_of rs tr = Some m \<longrightarrow> m \<noteq> []"
  shows "\<forall>tr m. map_of (fold recordFact fs rs) tr = Some m \<longrightarrow> m \<noteq> []"
  using assms
proof (induction fs arbitrary: rs)
  case Nil
  then show ?case by simp
next
  case (Cons f fs)
  obtain tm' tr' s' where f: "f = (tm', tr', s')" by (cases f) auto
  have "\<forall>tr m. map_of (recordFact f rs) tr = Some m \<longrightarrow> m \<noteq> []"
    using Cons.prems map_of_recordStatus [of tr' tm' s' rs]
    by (auto simp: f)
  from Cons.IH [OF this] show ?case by simp
qed

lemma lastStatus_append:
  "lastStatus (xs @ ys) tr tm =
     (case lastStatus ys tr tm of Some s \<Rightarrow> Some s | None \<Rightarrow> lastStatus xs tr tm)"
  by (induction xs) (auto split: option.splits)

lemma lastStatus_Some_mem: "lastStatus fs tr tm = Some s \<Longrightarrow> (tm, tr, s) \<in> set fs"
  by (induction fs) (auto split: option.splits if_splits)

lemma lastStatus_None_iff: "lastStatus fs tr tm = None \<longleftrightarrow> (\<forall>s. (tm, tr, s) \<notin> set fs)"
  by (induction fs) (auto split: option.splits if_splits)

lemma processLine_results:
  "results (processLine v b team line st) =
     (case lineMatch v line of
        None \<Rightarrow> results st
      | Some (s, tr) \<Rightarrow> recordStatus tr team s (results st))"
  by (simp add: processLine_def split: option.splits)

lemma processLine_allTeams: "allTeams (processLine v b team line st) = allTeams st"
  by (simp add: processLine_def split: option.splits)

lemma fold_processLine_allTeams:
  "allTeams (fold (processLine v b team) ls st) = allTeams st"
  by (induction ls arbitrary: st) (simp_all add: processLine_allTeams)

lemma fold_processLine_results:
  "results (fold (processLine v b team) ls st) =
     fold recordFact
       (map (\<lambda>(s, tr). (team, tr, s)) (List.map_filter (lineMatch v) ls)) (results st)"
proof (induction ls arbitrary: st)
  case Nil
  then show ?case by simp
next
  case (Cons l ls)
  show ?case
    by (cases "lineMatch v l")
      (auto simp: Cons.IH processLine_results)
qed

lemma processFiles_results:
  "results (processFiles v b files st) = fold recordFact (filesFacts v files) (results st)"
proof (induction files arbitrary: st)
  case Nil
  then show ?case by simp
next
  case (Cons e files)
  obtain fname content where e: "e = (fname, content)" by (cases e) auto
  show ?case
  proof (cases content)
    case None
    then show ?thesis by (simp add: e Let_def)
  next
    case (Some body)
    then show ?thesis
      by (simp add: e Let_def Cons.IH fold_processLine_results lineFacts_def)
  qed
qed

lemma processBranch_results:
  "results (processBranch v b st) = fold recordFact (branchFacts v b) (results st)"
  by (auto simp: processBranch_def branchFacts_def processFiles_results Let_def
      split: option.splits)

lemma fold_processBranch_results:
  "results (fold (processBranch v) bs st) =
     fold recordFact (concat (map (branchFacts v) bs)) (results st)"
  by (induction bs arbitrary: st) (simp_all add: processBranch_results)

lemma aggregate_results:
  "results (aggregate v bs) = fold recordFact (runFacts v bs) []"
  by (simp add: aggregate_def runFacts_def fold_processBranch_results initialState_def)

lemma aggregate_getStatus:
  "getStatus (results (aggregate v bs)) tr tm = lastStatus (runFacts v bs) tr tm"
proof -
  have "getStatus [] tr tm = None" by (simp add: getStatus_def)
  then show ?thesis
    by (simp add: aggregate_results getStatus_fold_recordFact split: option.splits)
qed

lemma aggregate_isMap: "isMap (results (aggregate v bs))"
  unfolding aggregate_results
  by (rule isMap_fold_recordFact) (simp add: isMap_def)

lemma aggregate_keys: "fst ` set (results (aggregate v bs)) = seenTraces v bs"
  by (simp add: aggregate_results keys_fold_recordFact seenTraces_def)

section \<open>Recorded teams are discovered teams\<close>

lemma teamsKnown_processLine:
  "teamsKnown st \<Longrightarrow> team \<in> set (allTeams st) \<Longrightarrow> teamsKnown (processLine v b team line st)"
  by (auto simp: teamsKnown_def processLine_results processLine_allTeams
      getStatus_recordStatus split: option.splits if_splits)

lemma teamsKnown_fold_processLine:
  "teamsKnown st \<Longrightarrow> team \<in> set (allTeams st) \<Longrightarrow>
   teamsKnown (fold (processLine v b team) ls st)"
proof (induction ls arbitrary: st)
  case Nil
  then show ?case by simp
next
  case (Cons l ls)
  have "teamsKnown (processLine v b team l st)"
    using Cons.prems by (rule teamsKnown_processLine)
  moreover have "team \<in> set (allTeams (processLine v b team l st))"
    using Cons.prems(2) by (simp add: processLine_allTeams)
  ultimately show ?case using Cons.IH by simp
qed

lemma teamsKnown_setAdd:
  "teamsKnown st \<Longrightarrow> teamsKnown (st\<lparr>allTeams := setAdd team (allTeams st)\<rparr>)"
  by (auto simp: teamsKnown_def setAdd_def)

lemma teamsKnown_processFiles:
  "teamsKnown st \<Longrightarrow> teamsKnown (processFiles v b files st)"
proof (induction files arbitrary: st)
  case Nil
  then show ?case by simp
next
  case (Cons e files)
  obtain fname content where e: "e = (fname, content)" by (cases e) auto
  let ?st1 = "st\<lparr>allTeams := setAdd (teamNameOf fname) (allTeams st)\<rparr>"
  have k: "teamsKnown ?st1" using Cons.prems by (rule teamsKnown_setAdd)
  have m: "teamNameOf fname \<in> set (allTeams ?st1)" by (simp add: setAdd_def)
  show ?case
  proof (cases content)
    case None
    then show ?thesis using k by (simp add: e Let_def)
  next
    case (Some body)
    have "teamsKnown (fold (processLine v b (teamNameOf fname)) (split 0x000A body) ?st1)"
      using k m by (rule teamsKnown_fold_processLine)
    from Cons.IH [OF this] show ?thesis by (simp add: e Some Let_def)
  qed
qed

lemma teamsKnown_processBranch: "teamsKnown st \<Longrightarrow> teamsKnown (processBranch v b st)"
  by (auto simp: processBranch_def Let_def teamsKnown_processFiles split: option.splits)

lemma teamsKnown_fold_processBranch:
  "teamsKnown st \<Longrightarrow> teamsKnown (fold (processBranch v) bs st)"
  by (induction bs arbitrary: st) (simp_all add: teamsKnown_processBranch)

lemma teamsKnown_aggregate: "teamsKnown (aggregate v bs)"
  unfolding aggregate_def
  by (rule teamsKnown_fold_processBranch)
    (simp add: teamsKnown_def initialState_def getStatus_def)

section \<open>Invariants of the result table\<close>

lemma aggregate_nonempty:
  "map_of (results (aggregate v bs)) tr = Some m \<Longrightarrow> m \<noteq> []"
proof -
  have "\<forall>tr m. map_of (fold recordFact (runFacts v bs) []) tr = Some m \<longrightarrow> m \<noteq> []"
    by (rule nonempty_fold_recordFact) simp
  then show "map_of (results (aggregate v bs)) tr = Some m \<Longrightarrow> m \<noteq> []"
    by (simp add: aggregate_results)
qed

lemma processLine_nonempty:
  assumes "\<forall>tr m. map_of (results st) tr = Some m \<longrightarrow> m \<noteq> []"
  shows "\<forall>tr m. map_of (results (processLine v b team line st)) tr = Some m \<longrightarrow> m \<noteq> []"
proof (cases "lineMatch v line")
  case None
  then show ?thesis using assms by (simp add: processLine_results)
next
  case (Some p)
  obtain s tr' where p: "p = (s, tr')" by (cases p) auto
  show ?thesis
    using assms map_of_recordStatus [of tr' team s "results st"]
    by (auto simp: processLine_results Some p)
qed

lemma nonempty_has_status:
  assumes "map_of rs tr = Some m" "m \<noteq> []"
  shows "\<exists>team s. getStatus rs tr team = Some s"
proof -
  from assms(2) obtain team s m' where "m = (team, s) # m'"
    by (cases m) auto
  with assms(1) have "getStatus rs tr team = Some s"
    by (simp add: getStatus_def)
  then show ?thesis by blast
qed

lemma isMap_mem_iff: "isMap rs \<Longrightarrow> (tr, m) \<in> set rs \<longleftrightarrow> map_of rs tr = Some m"
  by (simp add: isMap_def)

lemma set_allTraces: "set (allTraces rs) = fst ` set rs"
  by (simp add: allTraces_def)

text \<open>
  C10. Every trace identifier that is a key of the result table has at least one
  recorded (team, status) entry: this holds of the empty table, every processed line
  keeps it, and so it holds of the table at the end of the run, where every trace that
  is partitioned and rendered has a recorded status for some team.
\<close>

theorem trace_entries_never_empty:
  "(\<forall>trace m. map_of (results initialState) trace = Some m \<longrightarrow> m \<noteq> []) \<and>
   ((\<forall>trace m. map_of (results st) trace = Some m \<longrightarrow> m \<noteq> []) \<longrightarrow>
    (\<forall>trace m. map_of (results (processLine v b team line st)) trace = Some m \<longrightarrow> m \<noteq> [])) \<and>
   (\<forall>trace m. (trace, m) \<in> set (results (aggregate v branches)) \<longrightarrow> m \<noteq> []) \<and>
   (\<forall>trace \<in> set (allTraces (results (aggregate v branches))).
      \<exists>team s. getStatus (results (aggregate v branches)) trace team = Some s)"
proof (intro conjI)
  show "\<forall>trace m. map_of (results initialState) trace = Some m \<longrightarrow> m \<noteq> []"
    by (simp add: initialState_def)
next
  show "(\<forall>trace m. map_of (results st) trace = Some m \<longrightarrow> m \<noteq> []) \<longrightarrow>
    (\<forall>trace m. map_of (results (processLine v b team line st)) trace = Some m \<longrightarrow> m \<noteq> [])"
    using processLine_nonempty by blast
next
  show "\<forall>trace m. (trace, m) \<in> set (results (aggregate v branches)) \<longrightarrow> m \<noteq> []"
    using aggregate_nonempty isMap_mem_iff [OF aggregate_isMap] by blast
next
  show "\<forall>trace \<in> set (allTraces (results (aggregate v branches))).
      \<exists>team s. getStatus (results (aggregate v branches)) trace team = Some s"
  proof
    fix trace assume "trace \<in> set (allTraces (results (aggregate v branches)))"
    then obtain m where m: "(trace, m) \<in> set (results (aggregate v branches))"
      by (auto simp: set_allTraces)
    then have g: "map_of (results (aggregate v branches)) trace = Some m"
      by (simp add: isMap_mem_iff [OF aggregate_isMap])
    from nonempty_has_status [OF g aggregate_nonempty [OF g]]
    show "\<exists>team s. getStatus (results (aggregate v branches)) trace team = Some s" .
  qed
qed

lemma example_12:
  "aggregate Full [exB1, exB2] =
     \<lparr>results = [(js ''100'', [(js ''alice'', Green), (js ''bob'', Red)]),
                 (js ''200'', [(js ''alice'', Red)])],
      traceBranchMap = [(js ''100'', js ''b1'')],
      allTeams = [js ''alice'', js ''bob'']\<rparr>"
  by code_simp

theorem trace_entries_never_empty_witness:
  "(js ''200'', [(js ''alice'', Red)]) \<in> set (results (aggregate Full [exB1, exB2])) \<and>
   [(js ''alice'', Red)] \<noteq> ([] :: teamStatusMap) \<and>
   js ''200'' \<in> set (allTraces (results (aggregate Full [exB1, exB2]))) \<and>
   (\<exists>team s. getStatus (results (aggregate Full [exB1, exB2])) (js ''200'') team = Some s)"
proof -
  have m: "(js ''200'', [(js ''alice'', Red)]) \<in> set (results (aggregate Full [exB1, exB2]))"
    by (simp add: example_12)
  then have t: "js ''200'' \<in> set (allTraces (results (aggregate Full [exB1, exB2])))"
    by (force simp: set_allTraces)
  from trace_entries_never_empty [of initialState Full exB1 "[]" "[]" "[exB1, exB2]"] m t
  show ?thesis by blast
qed

section \<open>Last write wins\<close>

lemma lastStatus_runFacts_None:
  "\<forall>b\<in>set bs. lastStatus (branchFacts v b) tr tm = None \<Longrightarrow>
   lastStatus (runFacts v bs) tr tm = None"
  by (induction bs) (simp_all add: runFacts_def lastStatus_append)

lemma runFacts_append: "runFacts v (xs @ ys) = runFacts v xs @ runFacts v ys"
  by (simp add: runFacts_def)

lemma runFacts_Cons: "runFacts v (b # bs) = branchFacts v b @ runFacts v bs"
  by (simp add: runFacts_def)

text \<open>
  C2. Let a (trace id, team) pair be extracted on branch \<open>B1\<close> and on a later branch
  \<open>B2\<close> of the listing, and on no branch after \<open>B2\<close>. Then the status recorded in the
  result table at the end of the run is the one extracted on \<open>B2\<close> (the last one
  extracted there), whatever was extracted on \<open>B1\<close> and on the branches before \<open>B2\<close>.
\<close>

theorem last_write_wins:
  assumes "branches = pre @ B1 # mid @ B2 # post"
    and "lastStatus (branchFacts v B1) trace team = Some s1"
    and "lastStatus (branchFacts v B2) trace team = Some s2"
    and "\<forall>b\<in>set post. lastStatus (branchFacts v b) trace team = None"
  shows "getStatus (results (aggregate v branches)) trace team = Some s2"
proof -
  have "runFacts v branches =
          (runFacts v pre @ branchFacts v B1 @ runFacts v mid) @ branchFacts v B2 @ runFacts v post"
    by (simp add: assms(1) runFacts_append runFacts_Cons)
  moreover have "lastStatus (runFacts v post) trace team = None"
    using assms(4) by (rule lastStatus_runFacts_None)
  ultimately have "lastStatus (runFacts v branches) trace team = Some s2"
    using assms(3) by (simp add: lastStatus_append)
  then show ?thesis by (simp add: aggregate_getStatus)
qed

theorem last_write_wins_witness:
  "lastStatus (branchFacts Full exB1) (js ''100'') (js ''alice'') = Some Green \<and>
   lastStatus (branchFacts Full exB3) (js ''100'') (js ''alice'') = Some Red \<and>
   getStatus (results (aggregate Full [exB1, exB3])) (js ''100'') (js ''alice'') = Some Red"
proof -
  have 1: "lastStatus (branchFacts Full exB1) (js ''100'') (js ''alice'') = Some Green"
    by code_simp
  have 2: "lastStatus (branchFacts Full exB3) (js ''100'') (js ''alice'') = Some Red"
    by code_simp
  have "getStatus (results (aggregate Full [exB1, exB3])) (js ''100'') (js ''alice'') = Some Red"
    by (rule last_write_wins [where pre = "[]" and mid = "[]" and post = "[]", OF _ 1 2]) simp_all
  with 1 2 show ?thesis by simp
qed

section \<open>Sorting keeps the elements\<close>

lemma set_insertBy: "set (insertBy cmp x xs) = insert x (set xs)"
  by (induction xs) auto

lemma set_sortBy: "set (sortBy cmp xs) = set xs"
  by (induction xs) (simp_all add: sortBy_def set_insertBy)

lemma set_sortedTeams: "set (sortedTeams v lc teams) = set teams"
  by (cases v) (simp_all add: set_sortBy)

lemma distinct_allTraces: "isMap rs \<Longrightarrow> distinct (allTraces rs)"
  by (simp add: allTraces_def isMap_def)

lemma length_allTraces: "length (allTraces rs) = length rs"
  by (simp add: allTraces_def)

section \<open>Partition of the traces\<close>

lemma hasFailure_iff: "hasFailure m teams \<longleftrightarrow> (\<exists>team\<in>set teams. map_of m team = Some Red)"
  by (induction teams) auto

lemma classify_failing:
  "classify rs teams trace groups =
     (if failing rs teams trace then (fst groups @ [trace], snd groups)
      else (fst groups, snd groups @ [trace]))"
  by (auto simp: classify_def failing_def getStatus_def hasFailure_iff split: option.splits)

lemma fold_classify:
  "fold (classify rs teams) traces groups =
     (fst groups @ filter (failing rs teams) traces,
      snd groups @ filter (\<lambda>trace. \<not> failing rs teams trace) traces)"
  by (induction traces arbitrary: groups) (simp_all add: classify_failing)

lemma interestingTraces_filter:
  "interestingTraces rs teams traces = filter (failing rs teams) traces"
  by (simp add: interestingTraces_def partitionTraces_def fold_classify)

lemma boringTraces_filter:
  "boringTraces rs teams traces = filter (\<lambda>trace. \<not> failing rs teams trace) traces"
  by (simp add: boringTraces_def partitionTraces_def fold_classify)

lemma failing_aggregate:
  "failing (results (aggregate v bs)) (sortedTeams v' lc (allTeams (aggregate v bs))) trace \<longleftrightarrow>
     (\<exists>team. getStatus (results (aggregate v bs)) trace team = Some Red)"
  using teamsKnown_aggregate [of v bs]
  by (auto simp: failing_def set_sortedTeams teamsKnown_def)

text \<open>
  C1. At the end of the run the sorted trace identifiers are split into two groups, each
  in the order of the sorted list: the interesting group holds exactly the traces for
  which the recorded status of at least one team is fail, the other group holds the
  rest. No trace is in both groups, every trace seen is in one of them, and a trace
  without any recorded status is not in the interesting group.
\<close>

theorem interesting_iff_some_team_failed:
  assumes "rs = results (aggregate v branches)"
    and "teams = sortedTeams v localeCompare (allTeams (aggregate v branches))"
    and "traces = allTraces rs"
  shows "interestingTraces rs teams traces =
           filter (\<lambda>trace. \<exists>team. getStatus rs trace team = Some Red) traces \<and>
         boringTraces rs teams traces =
           filter (\<lambda>trace. \<not> (\<exists>team. getStatus rs trace team = Some Red)) traces \<and>
         set (interestingTraces rs teams traces) \<inter> set (boringTraces rs teams traces) = {} \<and>
         set (interestingTraces rs teams traces) \<union> set (boringTraces rs teams traces) =
           seenTraces v branches \<and>
         sorted traces \<and> distinct traces \<and>
         (\<forall>trace. (\<forall>team. getStatus rs trace team = None) \<longrightarrow>
            trace \<notin> set (interestingTraces rs teams traces))"
proof -
  have f: "failing rs teams = (\<lambda>trace. \<exists>team. getStatus rs trace team = Some Red)"
    unfolding assms(1,2) by (rule ext) (rule failing_aggregate)
  have i: "interestingTraces rs teams traces =
           filter (\<lambda>trace. \<exists>team. getStatus rs trace team = Some Red) traces"
    by (simp add: interestingTraces_filter f)
  have b: "boringTraces rs teams traces =
           filter (\<lambda>trace. \<not> (\<exists>team. getStatus rs trace team = Some Red)) traces"
    by (simp add: boringTraces_filter f)
  have s: "set traces = seenTraces v branches"
    by (simp add: assms(3,1) set_allTraces aggregate_keys)
  have d: "distinct traces"
    unfolding assms(3,1) by (rule distinct_allTraces) (rule aggregate_isMap)
  have o: "sorted traces"
    by (simp add: assms(3) allTraces_def)
  have u: "set (interestingTraces rs teams traces) \<union> set (boringTraces rs teams traces) =
           seenTraces v branches"
    unfolding i b s [symmetric] by auto
  have n: "set (interestingTraces rs teams traces) \<inter> set (boringTraces rs teams traces) = {}"
    unfolding i b by auto
  have z: "\<forall>trace. (\<forall>team. getStatus rs trace team = None) \<longrightarrow>
            trace \<notin> set (interestingTraces rs teams traces)"
    unfolding i by simp
  from i b n u o d z show ?thesis by blast
qed

theorem interesting_iff_some_team_failed_witness:
  "interestingTraces (results (aggregate Full [exB1, exB2]))
     (sortedTeams Full codeUnitCompare (allTeams (aggregate Full [exB1, exB2])))
     (allTraces (results (aggregate Full [exB1, exB2]))) = [js ''100'', js ''200''] \<and>
   getStatus (results (aggregate Full [exB1, exB2])) (js ''100'') (js ''bob'') = Some Red \<and>
   (\<forall>team. getStatus (results (aggregate Full [exB1, exB2])) (js ''300'') team = None) \<and>
   js ''300'' \<notin> set (interestingTraces (results (aggregate Full [exB1, exB2]))
     (sortedTeams Full codeUnitCompare (allTeams (aggregate Full [exB1, exB2])))
     (allTraces (results (aggregate Full [exB1, exB2]))))"
proof -
  let ?rs = "results (aggregate Full [exB1, exB2])"
  let ?teams = "sortedTeams Full codeUnitCompare (allTeams (aggregate Full [exB1, exB2]))"
  have 1: "interestingTraces ?rs ?teams (allTraces ?rs) = [js ''100'', js ''200'']"
    by code_simp
  have 2: "getStatus ?rs (js ''100'') (js ''bob'') = Some Red"
    by code_simp
  have "map_of ?rs (js ''300'') = None"
    by code_simp
  then have 3: "\<forall>team. getStatus ?rs (js ''300'') team = None"
    by (simp add: getStatus_def)
  from interesting_iff_some_team_failed [OF refl refl refl, of Full "[exB1, exB2]" codeUnitCompare] 3
  have "js ''300'' \<notin> set (interestingTraces ?rs ?teams (allTraces ?rs))"
    by blast
  with 1 2 3 show ?thesis by blast
qed

section \<open>Counts per team\<close>

lemma fold_countStatus:
  "fold (countStatus rs team) traces c =
     \<lparr>red = red c + length (filter (\<lambda>trace. getStatus rs trace team = Some Red) traces),
      green = green c + length (filter (\<lambda>trace. getStatus rs trace team = Some Green) traces),
      unknown = unknown c + length (filter (\<lambda>trace. getStatus rs trace team = None) traces)\<rparr>"
proof (induction traces arbitrary: c)
  case Nil
  then show ?case by simp
next
  case (Cons t ts)
  show ?case
  proof (cases "getStatus rs t team")
    case None
    then have "countStatus rs team t c = c\<lparr>unknown := unknown c + 1\<rparr>"
      by (simp add: countStatus_def)
    then show ?thesis using None by (simp add: Cons.IH)
  next
    case (Some s)
    show ?thesis
    proof (cases s)
      case Red
      with Some have "countStatus rs team t c = c\<lparr>red := red c + 1\<rparr>"
        by (simp add: countStatus_def)
      then show ?thesis using Some Red by (simp add: Cons.IH)
    next
      case Green
      with Some have "countStatus rs team t c = c\<lparr>green := green c + 1\<rparr>"
        by (simp add: countStatus_def)
      then show ?thesis using Some Green by (simp add: Cons.IH)
    qed
  qed
qed

lemma teamStats_filter:
  "teamStats rs traces team =
     \<lparr>red = length (filter (\<lambda>trace. getStatus rs trace team = Some Red) traces),
      green = length (filter (\<lambda>trace. getStatus rs trace team = Some Green) traces),
      unknown = length (filter (\<lambda>trace. getStatus rs trace team = None) traces)\<rparr>"
  by (simp add: teamStats_def fold_countStatus)

lemma three_way_length:
  "length (filter (\<lambda>x. f x = Some Red) xs) + length (filter (\<lambda>x. f x = Some Green) xs) +
   length (filter (\<lambda>x. f x = None) xs) = length xs"
proof (induction xs)
  case Nil
  then show ?case by simp
next
  case (Cons x xs)
  show ?case
  proof (cases "f x")
    case None
    then show ?thesis using Cons.IH by simp
  next
    case (Some s)
    then show ?thesis using Cons.IH by (cases s) simp_all
  qed
qed

lemma teamStats_sum:
  "red (teamStats rs traces team) + green (teamStats rs traces team) +
   unknown (teamStats rs traces team) = length traces"
  by (simp add: teamStats_filter three_way_length)

lemma card_seenTraces:
  "length (allTraces (results (aggregate v bs))) = card (seenTraces v bs)"
proof -
  have "distinct (allTraces (results (aggregate v bs)))"
    by (rule distinct_allTraces) (rule aggregate_isMap)
  then have "length (allTraces (results (aggregate v bs))) =
             card (set (allTraces (results (aggregate v bs))))"
    by (simp add: distinct_card)
  then show ?thesis by (simp add: set_allTraces aggregate_keys)
qed

lemma filter_count_aggregate:
  "length (filter (\<lambda>trace. getStatus (results (aggregate v bs)) trace team = status)
     (allTraces (results (aggregate v bs)))) = recordedCount v bs team status"
proof -
  let ?rs = "results (aggregate v bs)"
  have d: "distinct (allTraces ?rs)"
    by (rule distinct_allTraces) (rule aggregate_isMap)
  have "{trace \<in> seenTraces v bs. getStatus ?rs trace team = status} =
        {trace. getStatus ?rs trace team = status} \<inter> set (allTraces ?rs)"
    by (auto simp: set_allTraces aggregate_keys)
  then show ?thesis
    by (simp add: recordedCount_def distinct_length_filter [OF d])
qed

lemma teamStats_aggregate:
  "teamStats (results (aggregate v bs)) (allTraces (results (aggregate v bs))) team =
     \<lparr>red = recordedCount v bs team (Some Red),
      green = recordedCount v bs team (Some Green),
      unknown = recordedCount v bs team None\<rparr>"
  by (simp add: teamStats_filter filter_count_aggregate)

text \<open>
  C9. For every team, the failing count, the passing count and the unknown count of the
  summary rows add up to the number of distinct trace identifiers seen in the run.
\<close>

theorem counts_add_up_to_traces_seen:
  "red (teamStats (results (aggregate v branches)) (allTraces (results (aggregate v branches))) team) +
   green (teamStats (results (aggregate v branches)) (allTraces (results (aggregate v branches))) team) +
   unknown (teamStats (results (aggregate v branches)) (allTraces (results (aggregate v branches))) team) =
   card (seenTraces v branches)"
  by (simp only: teamStats_sum card_seenTraces)

section \<open>Shape of the rendered table\<close>

lemma fold_snoc_concat: "fold (\<lambda>x acc. acc @ f x) xs init = init @ concat (map f xs)"
  by (induction xs arbitrary: init) simp_all

lemma summaryRow_concat:
  "summaryRow mark count teams =
     js ''| '' @ mark @ js '' |'' @
     concat (map (\<lambda>team. js '' '' @ showNat (count team) @ js '' |'') teams)"
  by (simp add: summaryRow_def fold_snoc_concat)

lemma summaryRow_cong:
  "(\<And>team. team \<in> set teams \<Longrightarrow> count team = count' team) \<Longrightarrow>
   summaryRow mark count teams = summaryRow mark count' teams"
  by (simp add: summaryRow_concat cong: map_cong)

lemma traceRow_concat:
  "traceRow rs tbm teams trace =
     js ''| '' @ linkify tbm trace @ js '' |'' @
     concat (map (\<lambda>team. js '' '' @ statusCell rs trace team @ js '' |'') teams)"
  by (simp add: traceRow_def fold_snoc_concat)

lemma teamRow_concat:
  "teamRow rs traces interesting team =
     js ''| '' @ team @ js '' |'' @
     js '' '' @ showNat (red (teamStats rs traces team)) @ js '' | '' @
     showNat (green (teamStats rs traces team)) @ js '' | '' @
     showNat (unknown (teamStats rs traces team)) @ js '' |'' @
     concat (map (\<lambda>trace. js '' '' @ statusCell rs trace team @ js '' |'') interesting)"
  by (simp add: teamRow_def Let_def fold_snoc_concat)

lemma mdTable_concat:
  "mdTable lc st =
     js ''| Trace | '' @ join (js '' | '') (sortedTeams Full lc (allTeams st)) @ js '' |'' @ NL @
     js ''|---|'' @ join (js ''|'') (map (\<lambda>t. js ''---'') (sortedTeams Full lc (allTeams st))) @
     js ''|'' @ NL @
     summaryRow RED (\<lambda>team. red (teamStats (results st) (allTraces (results st)) team))
       (sortedTeams Full lc (allTeams st)) @ NL @
     summaryRow GREEN (\<lambda>team. green (teamStats (results st) (allTraces (results st)) team))
       (sortedTeams Full lc (allTeams st)) @ NL @
     summaryRow WHITE (\<lambda>team. unknown (teamStats (results st) (allTraces (results st)) team))
       (sortedTeams Full lc (allTeams st)) @ NL @
     concat (map (\<lambda>trace. traceRow (results st) (traceBranchMap st)
                            (sortedTeams Full lc (allTeams st)) trace @ NL)
       (interestingTraces (results st) (sortedTeams Full lc (allTeams st))
          (allTraces (results st))))"
  by (simp add: mdTable_def Let_def fold_snoc_concat)

lemma mdTableSimplified_concat:
  "mdTableSimplified st =
     js ''| Team | '' @ RED @ js '' | '' @ GREEN @ js '' | '' @ WHITE @ js '' | '' @
     join (js '' | '') (interestingTraces (results st) (sort (allTeams st)) (allTraces (results st))) @
     js '' |'' @ NL @
     js ''|---|---|---|---|'' @
     join (js ''|'') (map (\<lambda>t. js ''---'')
       (interestingTraces (results st) (sort (allTeams st)) (allTraces (results st)))) @
     js ''|'' @ NL @
     concat (map (\<lambda>team. teamRow (results st) (allTraces (results st))
                           (interestingTraces (results st) (sort (allTeams st))
                              (allTraces (results st))) team @ NL)
       (sort (allTeams st)))"
  by (simp add: mdTableSimplified_def Let_def fold_snoc_concat)

section \<open>Decimal numerals\<close>

lemma unat_digit: "d < 10 \<Longrightarrow> unat (of_nat (48 + d) :: unit16) = 48 + d"
proof -
  assume d: "d < 10"
  have "unat (of_nat (48 + d) :: unit16) = (48 + d) mod 2 ^ LENGTH(16)"
    by (rule unat_of_nat)
  also have "\<dots> = 48 + d" using d by simp
  finally show ?thesis .
qed

lemma isDigit_digit: "d < 10 \<Longrightarrow> isDigit (of_nat (48 + d))"
  by (simp add: isDigit_def word_le_nat_alt unat_digit del: of_nat_add)

lemma digit_zero_iff: "d < 10 \<Longrightarrow> (of_nat (48 + d) :: unit16) = 0x30 \<longleftrightarrow> d = 0"
proof
  assume d: "d < 10" and "(of_nat (48 + d) :: unit16) = 0x30"
  then have "unat (of_nat (48 + d) :: unit16) = unat (0x30 :: unit16)" by (simp only:)
  with d show "d = 0" by (simp add: unat_digit del: of_nat_add)
next
  assume "d = 0"
  then show "(of_nat (48 + d) :: unit16) = 0x30" by simp
qed

lemma showNat_small: "n < 10 \<Longrightarrow> showNat n = [of_nat (48 + n)]"
  by (simp add: showNat.simps del: of_nat_add)

lemma showNat_large:
  "\<not> n < 10 \<Longrightarrow> showNat n = showNat (n div 10) @ [of_nat (48 + n mod 10)]"
  by (subst showNat.simps) (simp del: of_nat_add)

lemma showNat_nonempty: "showNat n \<noteq> []"
  by (cases "n < 10") (simp_all add: showNat_small showNat_large del: of_nat_add)

lemma showNat_digits: "d \<in> set (showNat n) \<Longrightarrow> isDigit d"
proof (induction n arbitrary: d rule: showNat.induct)
  case (1 n)
  show ?case
  proof (cases "n < 10")
    case True
    with "1.prems" show ?thesis
      by (simp add: showNat_small isDigit_digit del: of_nat_add)
  next
    case False
    with "1.prems" "1.IH" show ?thesis
      by (auto simp: showNat_large isDigit_digit simp del: of_nat_add)
  qed
qed

lemma showNat_no_leading_zero: "0 < n \<Longrightarrow> hd (showNat n) \<noteq> 0x30"
proof (induction n rule: showNat.induct)
  case (1 n)
  show ?case
  proof (cases "n < 10")
    case True
    with "1.prems" show ?thesis
      by (simp add: showNat_small digit_zero_iff del: of_nat_add)
  next
    case False
    then have "0 < n div 10" by arith
    with False "1.IH" show ?thesis
      by (simp add: showNat_large showNat_nonempty del: of_nat_add)
  qed
qed

lemma decimalValue_snoc: "decimalValue (s @ [d]) = 10 * decimalValue s + (unat d - 48)"
  by (simp add: decimalValue_def)

lemma decimalValue_showNat: "decimalValue (showNat n) = n"
proof (induction n rule: showNat.induct)
  case (1 n)
  show ?case
  proof (cases "n < 10")
    case True
    then show ?thesis
      by (simp add: showNat_small decimalValue_def unat_digit del: of_nat_add)
  next
    case False
    with "1.IH" show ?thesis
      by (simp add: showNat_large decimalValue_snoc unat_digit del: of_nat_add)
  qed
qed

lemma isDecimal_showNat: "isDecimal (showNat n) n"
proof -
  have "hd (showNat n) = 0x30 \<longrightarrow> showNat n = [0x30]"
  proof
    assume h: "hd (showNat n) = 0x30"
    with showNat_no_leading_zero [of n] have "n = 0" by auto
    then show "showNat n = [0x30]" by (simp add: showNat_small)
  qed
  then show ?thesis
    unfolding isDecimal_def
    using showNat_nonempty showNat_digits decimalValue_showNat by blast
qed

text \<open>
  C6. In the table of index.ts the three summary rows hold, for every team in the team
  ordering, the decimal numeral of the number of traces seen in the run whose recorded
  status for the team is fail, of the number whose recorded status is pass, and of the
  number without a recorded status for the team; in the table of the simplified file
  the row of each team starts with the same three numerals. The counts range over all
  traces seen, while the data rows (or columns) hold the interesting traces only.
\<close>

theorem summary_rows_count_all_traces:
  "mdTable localeCompare (aggregate Full branches) =
     (let st = aggregate Full branches;
          rs = results st;
          teams = sortedTeams Full localeCompare (allTeams st);
          interesting = interestingTraces rs teams (allTraces rs)
      in js ''| Trace | '' @ join (js '' | '') teams @ js '' |'' @ NL @
         js ''|---|'' @ join (js ''|'') (map (\<lambda>t. js ''---'') teams) @ js ''|'' @ NL @
         js ''| '' @ RED @ js '' |'' @
         concat (map (\<lambda>team.
           js '' '' @ showNat (recordedCount Full branches team (Some Red)) @ js '' |'') teams) @
         NL @
         js ''| '' @ GREEN @ js '' |'' @
         concat (map (\<lambda>team.
           js '' '' @ showNat (recordedCount Full branches team (Some Green)) @ js '' |'') teams) @
         NL @
         js ''| '' @ WHITE @ js '' |'' @
         concat (map (\<lambda>team.
           js '' '' @ showNat (recordedCount Full branches team None) @ js '' |'') teams) @
         NL @
         concat (map (\<lambda>trace. traceRow rs (traceBranchMap st) teams trace @ NL) interesting)) \<and>
   mdTableSimplified (aggregate Simplified branches) =
     (let st = aggregate Simplified branches;
          rs = results st;
          teams = sortedTeams Simplified localeCompare (allTeams st);
          interesting = interestingTraces rs teams (allTraces rs)
      in js ''| Team | '' @ RED @ js '' | '' @ GREEN @ js '' | '' @ WHITE @ js '' | '' @
         join (js '' | '') interesting @ js '' |'' @ NL @
         js ''|---|---|---|---|'' @ join (js ''|'') (map (\<lambda>t. js ''---'') interesting) @
         js ''|'' @ NL @
         concat (map (\<lambda>team.
            js ''| '' @ team @ js '' |'' @
            js '' '' @ showNat (recordedCount Simplified branches team (Some Red)) @ js '' | '' @
            showNat (recordedCount Simplified branches team (Some Green)) @ js '' | '' @
            showNat (recordedCount Simplified branches team None) @ js '' |'' @
            concat (map (\<lambda>trace. js '' '' @ statusCell rs trace team @ js '' |'') interesting) @
            NL) teams)) \<and>
   (\<forall>n. isDecimal (showNat n) n)"
proof (intro conjI allI)
  show "mdTable localeCompare (aggregate Full branches) =
     (let st = aggregate Full branches;
          rs = results st;
          teams = sortedTeams Full localeCompare (allTeams st);
          interesting = interestingTraces rs teams (allTraces rs)
      in js ''| Trace | '' @ join (js '' | '') teams @ js '' |'' @ NL @
         js ''|---|'' @ join (js ''|'') (map (\<lambda>t. js ''---'') teams) @ js ''|'' @ NL @
         js ''| '' @ RED @ js '' |'' @
         concat (map (\<lambda>team.
           js '' '' @ showNat (recordedCount Full branches team (Some Red)) @ js '' |'') teams) @
         NL @
         js ''| '' @ GREEN @ js '' |'' @
         concat (map (\<lambda>team.
           js '' '' @ showNat (recordedCount Full branches team (Some Green)) @ js '' |'') teams) @
         NL @
         js ''| '' @ WHITE @ js '' |'' @
         concat (map (\<lambda>team.
           js '' '' @ showNat (recordedCount Full branches team None) @ js '' |'') teams) @
         NL @
         concat (map (\<lambda>trace. traceRow rs (traceBranchMap st) teams trace @ NL) interesting))"
    by (simp add: mdTable_concat summaryRow_concat teamStats_aggregate Let_def)
next
  show "mdTableSimplified (aggregate Simplified branches) =
     (let st = aggregate Simplified branches;
          rs = results st;
          teams = sortedTeams Simplified localeCompare (allTeams st);
          interesting = interestingTraces rs teams (allTraces rs)
      in js ''| Team | '' @ RED @ js '' | '' @ GREEN @ js '' | '' @ WHITE @ js '' | '' @
         join (js '' | '') interesting @ js '' |'' @ NL @
         js ''|---|---|---|---|'' @ join (js ''|'') (map (\<lambda>t. js ''---'') interesting) @
         js ''|'' @ NL @
         concat (map (\<lambda>team.
            js ''| '' @ team @ js '' |'' @
            js '' '' @ showNat (recordedCount Simplified branches team (Some Red)) @ js '' | '' @
            showNat (recordedCount Simplified branches team (Some Green)) @ js '' | '' @
            showNat (recordedCount Simplified branches team None) @ js '' |'' @
            concat (map (\<lambda>trace. js '' '' @ statusCell rs trace team @ js '' |'') interesting) @
            NL) teams))"
    by (simp add: mdTableSimplified_concat teamRow_concat teamStats_aggregate Let_def)
next
  fix n show "isDecimal (showNat n) n" by (rule isDecimal_showNat)
qed

lemma example_counts:
  "recordedCount Full [exB1, exB2] (js ''alice'') (Some Red) = 1"
  "recordedCount Full [exB1, exB2] (js ''alice'') (Some Green) = 1"
  "recordedCount Full [exB1, exB2] (js ''alice'') None = 0"
  "recordedCount Full [exB1, exB2] (js ''bob'') (Some Red) = 1"
  "recordedCount Full [exB1, exB2] (js ''bob'') (Some Green) = 0"
  "recordedCount Full [exB1, exB2] (js ''bob'') None = 1"
proof -
  have a: "teamStats (results (aggregate Full [exB1, exB2]))
             (allTraces (results (aggregate Full [exB1, exB2]))) (js ''alice'') =
           \<lparr>red = 1, green = 1, unknown = 0\<rparr>"
    by code_simp
  have b: "teamStats (results (aggregate Full [exB1, exB2]))
             (allTraces (results (aggregate Full [exB1, exB2]))) (js ''bob'') =
           \<lparr>red = 1, green = 0, unknown = 1\<rparr>"
    by code_simp
  from a show "recordedCount Full [exB1, exB2] (js ''alice'') (Some Red) = 1"
    "recordedCount Full [exB1, exB2] (js ''alice'') (Some Green) = 1"
    "recordedCount Full [exB1, exB2] (js ''alice'') None = 0"
    by (simp_all add: teamStats_aggregate)
  from b show "recordedCount Full [exB1, exB2] (js ''bob'') (Some Red) = 1"
    "recordedCount Full [exB1, exB2] (js ''bob'') (Some Green) = 0"
    "recordedCount Full [exB1, exB2] (js ''bob'') None = 1"
    by (simp_all add: teamStats_aggregate)
qed

theorem summary_rows_count_all_traces_witness:
  "mdTable codeUnitCompare (aggregate Full [exB1, exB2]) =
     js ''| Trace | alice | bob |'' @ [0x0A] @
     js ''|---|---|---|'' @ [0x0A] @
     [0x7C, 0x20, 0xD83D, 0xDD34, 0x20, 0x7C, 0x20, 0x31, 0x20, 0x7C, 0x20, 0x31, 0x20, 0x7C, 0x0A] @
     [0x7C, 0x20, 0xD83D, 0xDFE2, 0x20, 0x7C, 0x20, 0x31, 0x20, 0x7C, 0x20, 0x30, 0x20, 0x7C, 0x0A] @
     [0x7C, 0x20, 0x26AA, 0x20, 0x7C, 0x20, 0x30, 0x20, 0x7C, 0x20, 0x31, 0x20, 0x7C, 0x0A] @
     js ''| [100](https://github.com/w3f/jam-conformance/tree/b1/fuzz-reports/0.7.2/traces/100) | '' @
       GREEN @ js '' | '' @ RED @ js '' |'' @ NL @
     js ''| 200 | '' @ RED @ js '' | '' @ WHITE @ js '' |'' @ NL \<and>
   recordedCount Full [exB1, exB2] (js ''alice'') (Some Red) = 1 \<and>
   recordedCount Full [exB1, exB2] (js ''alice'') (Some Green) = 1 \<and>
   recordedCount Full [exB1, exB2] (js ''alice'') None = 0 \<and>
   recordedCount Full [exB1, exB2] (js ''bob'') (Some Red) = 1 \<and>
   recordedCount Full [exB1, exB2] (js ''bob'') (Some Green) = 0 \<and>
   recordedCount Full [exB1, exB2] (js ''bob'') None = 1 \<and>
   isDecimal [0x31] 1 \<and> isDecimal [0x30] 0"
proof -
  have teams: "sortedTeams Full codeUnitCompare (allTeams (aggregate Full [exB1, exB2])) =
               [js ''alice'', js ''bob'']"
    by code_simp
  have 1: "showNat 1 = [0x31]" and 0: "showNat 0 = [0x30]"
    by code_simp+
  from 1 have s1: "showNat (Suc 0) = [0x31]" by simp
  have rest: "concat (map (\<lambda>trace. traceRow (results (aggregate Full [exB1, exB2]))
                 (traceBranchMap (aggregate Full [exB1, exB2])) [js ''alice'', js ''bob''] trace @ NL)
               (interestingTraces (results (aggregate Full [exB1, exB2])) [js ''alice'', js ''bob'']
                  (allTraces (results (aggregate Full [exB1, exB2]))))) =
     js ''| [100](https://github.com/w3f/jam-conformance/tree/b1/fuzz-reports/0.7.2/traces/100) | '' @
       GREEN @ js '' | '' @ RED @ js '' |'' @ NL @
     js ''| 200 | '' @ RED @ js '' | '' @ WHITE @ js '' |'' @ NL"
    by code_simp
  have head: "js ''| Trace | '' @ join (js '' | '') [js ''alice'', js ''bob''] @ js '' |'' @ NL @
         js ''|---|'' @ join (js ''|'') (map (\<lambda>t. js ''---'') [js ''alice'', js ''bob'']) @
         js ''|'' @ NL =
         js ''| Trace | alice | bob |'' @ [0x0A] @ js ''|---|---|---|'' @ [0x0A]"
    by code_simp
  have rows: "js ''| '' @ RED @ js '' |'' @ js '' '' @ [0x31] @ js '' |'' @ js '' '' @ [0x31] @ js '' |'' @ NL =
      [0x7C, 0x20, 0xD83D, 0xDD34, 0x20, 0x7C, 0x20, 0x31, 0x20, 0x7C, 0x20, 0x31, 0x20, 0x7C, 0x0A]"
    "js ''| '' @ GREEN @ js '' |'' @ js '' '' @ [0x31] @ js '' |'' @ js '' '' @ [0x30] @ js '' |'' @ NL =
      [0x7C, 0x20, 0xD83D, 0xDFE2, 0x20, 0x7C, 0x20, 0x31, 0x20, 0x7C, 0x20, 0x30, 0x20, 0x7C, 0x0A]"
    "js ''| '' @ WHITE @ js '' |'' @ js '' '' @ [0x30] @ js '' |'' @ js '' '' @ [0x31] @ js '' |'' @ NL =
      [0x7C, 0x20, 0x26AA, 0x20, 0x7C, 0x20, 0x30, 0x20, 0x7C, 0x20, 0x31, 0x20, 0x7C, 0x0A]"
    by code_simp+
  note inst = summary_rows_count_all_traces [of codeUnitCompare "[exB1, exB2]"]
  from inst have
    "mdTable codeUnitCompare (aggregate Full [exB1, exB2]) =
       (js ''| Trace | '' @ join (js '' | '') [js ''alice'', js ''bob''] @ js '' |'' @ NL @
         js ''|---|'' @ join (js ''|'') (map (\<lambda>t. js ''---'') [js ''alice'', js ''bob'']) @
         js ''|'' @ NL) @
       (js ''| '' @ RED @ js '' |'' @ js '' '' @ [0x31] @ js '' |'' @ js '' '' @ [0x31] @ js '' |'' @ NL) @
       (js ''| '' @ GREEN @ js '' |'' @ js '' '' @ [0x31] @ js '' |'' @ js '' '' @ [0x30] @ js '' |'' @ NL) @
       (js ''| '' @ WHITE @ js '' |'' @ js '' '' @ [0x30] @ js '' |'' @ js '' '' @ [0x31] @ js '' |'' @ NL) @
       concat (map (\<lambda>trace. traceRow (results (aggregate Full [exB1, exB2]))
                 (traceBranchMap (aggregate Full [exB1, exB2])) [js ''alice'', js ''bob''] trace @ NL)
               (interestingTraces (results (aggregate Full [exB1, exB2])) [js ''alice'', js ''bob'']
                  (allTraces (results (aggregate Full [exB1, exB2])))))"
    by (simp add: Let_def teams example_counts s1 0 del: sortedTeams.simps)
  then have t: "mdTable codeUnitCompare (aggregate Full [exB1, exB2]) =
     js ''| Trace | alice | bob |'' @ [0x0A] @
     js ''|---|---|---|'' @ [0x0A] @
     [0x7C, 0x20, 0xD83D, 0xDD34, 0x20, 0x7C, 0x20, 0x31, 0x20, 0x7C, 0x20, 0x31, 0x20, 0x7C, 0x0A] @
     [0x7C, 0x20, 0xD83D, 0xDFE2, 0x20, 0x7C, 0x20, 0x31, 0x20, 0x7C, 0x20, 0x30, 0x20, 0x7C, 0x0A] @
     [0x7C, 0x20, 0x26AA, 0x20, 0x7C, 0x20, 0x30, 0x20, 0x7C, 0x20, 0x31, 0x20, 0x7C, 0x0A] @
     js ''| [100](https://github.com/w3f/jam-conformance/tree/b1/fuzz-reports/0.7.2/traces/100) | '' @
       GREEN @ js '' | '' @ RED @ js '' |'' @ NL @
     js ''| 200 | '' @ RED @ js '' | '' @ WHITE @ js '' |'' @ NL"
    by (simp only: head rows rest append_assoc)
  from inst have "isDecimal (showNat 1) 1" "isDecimal (showNat 0) 0" by blast+
  then have d: "isDecimal [0x31] 1" "isDecimal [0x30] 0" by (simp_all only: 1 0)
  from t d example_counts show ?thesis by simp
qed

section \<open>Properties of the template updater\<close>

lemma startsWith_iff: "startsWith s pat \<longleftrightarrow> (\<exists>post. s = pat @ post)"
proof
  assume "startsWith s pat"
  then have "s = pat @ drop (length pat) s"
    by (metis append_take_drop_id startsWith_def)
  then show "\<exists>post. s = pat @ post" ..
next
  assume "\<exists>post. s = pat @ post"
  then show "startsWith s pat" by (auto simp: startsWith_def)
qed

lemma indexOf_at: "indexOf s pat = Some i \<Longrightarrow> take (length pat) (drop i s) = pat"
proof (induction s arbitrary: i)
  case Nil
  then show ?case by (simp split: if_splits)
next
  case (Cons c cs)
  show ?case
  proof (cases "startsWith (c # cs) pat")
    case True
    with Cons.prems have "i = 0" by simp
    with True show ?thesis by (simp add: startsWith_def)
  next
    case False
    with Cons.prems obtain k where k: "indexOf cs pat = Some k" "i = Suc k"
      by auto
    from Cons.IH [OF k(1)] show ?thesis by (simp add: k(2))
  qed
qed


lemma startsWith_length: "startsWith s pat \<Longrightarrow> length pat \<le> length s"
  by (auto simp: startsWith_iff)

lemma indexOf_bound: "indexOf s pat = Some i \<Longrightarrow> i + length pat \<le> length s"
proof (induction s arbitrary: i)
  case Nil
  then show ?case by (simp split: if_splits)
next
  case (Cons c cs)
  show ?case
  proof (cases "startsWith (c # cs) pat")
    case True
    with Cons.prems have "i = 0" by simp
    with startsWith_length [OF True] show ?thesis by simp
  next
    case False
    with Cons.prems obtain k where k: "indexOf cs pat = Some k" "i = Suc k"
      by auto
    from Cons.IH [OF k(1)] show ?thesis by (simp add: k(2))
  qed
qed



lemma updateReadme_splice:
  assumes "indexOf doc startMarker = Some i"
    and "indexOf doc endMarker = Some j"
    and "i + length startMarker \<le> j"
  shows "\<exists>pre mid post.
           doc = pre @ startMarker @ mid @ endMarker @ post \<and>
           length pre = i \<and> length (pre @ startMarker @ mid) = j \<and>
           updateReadme (Some doc) table =
             (Some (pre @ startMarker @ NL @ NL @ table @ NL @ endMarker @ post), ReadmeUpdated)"
proof -
  let ?pre = "take i doc"
  let ?mid = "drop (i + length startMarker) (take j doc)"
  let ?post = "drop (j + length endMarker) doc"
  have bi: "i + length startMarker \<le> length doc" and bj: "j + length endMarker \<le> length doc"
    using assms(1,2) by (auto dest: indexOf_bound)
  have before: "take (i + length startMarker) doc = ?pre @ startMarker"
  proof -
    have "take (i + length startMarker) doc = ?pre @ take (length startMarker) (drop i doc)"
      by (simp only: take_add)
    then show ?thesis by (simp only: indexOf_at [OF assms(1)])
  qed
  have after: "drop j doc = endMarker @ ?post"
  proof -
    have "drop j doc = take (length endMarker) (drop j doc) @ drop (length endMarker) (drop j doc)"
      by (simp only: append_take_drop_id)
    also have "drop (length endMarker) (drop j doc) = ?post"
      by (simp add: add.commute)
    finally show ?thesis by (simp only: indexOf_at [OF assms(2)])
  qed
  have "take j doc = take (i + length startMarker) (take j doc) @ ?mid"
    by (simp only: append_take_drop_id)
  also have "take (i + length startMarker) (take j doc) = take (i + length startMarker) doc"
    using assms(3) by (simp add: min_def)
  finally have tj: "take j doc = ?pre @ startMarker @ ?mid"
    by (simp add: before)
  have d: "doc = ?pre @ startMarker @ ?mid @ endMarker @ ?post"
  proof -
    have "doc = take j doc @ drop j doc" by (simp only: append_take_drop_id)
    also have "\<dots> = (?pre @ startMarker @ ?mid) @ endMarker @ ?post"
      by (simp only: tj [symmetric] after [symmetric])
    finally show ?thesis by (simp only: append_assoc)
  qed
  have li: "length ?pre = i" using bi by simp
  have lj: "length (?pre @ startMarker @ ?mid) = j"
  proof -
    have "length (take j doc) = j" using bj by simp
    then show ?thesis by (simp only: tj [symmetric])
  qed
  have u: "updateReadme (Some doc) table =
             (Some (?pre @ startMarker @ NL @ NL @ table @ NL @ endMarker @ ?post), ReadmeUpdated)"
    by (simp add: updateReadme_def assms(1,2) substring_def substringFrom_def before after)
  from d li lj u show ?thesis by blast
qed

lemma utf8Encode_pair:
  "isLead x \<and> isTrail y \<Longrightarrow>
   utf8Encode (x # y # rest) =
     encodeCodePoint (0x10000 + (uint x - 0xD800) * 0x400 + (uint y - 0xDC00)) @ utf8Encode rest"
  by simp

lemma utf8Encode_single:
  "\<not> (isLead x \<and> isTrail y) \<Longrightarrow>
   utf8Encode (x # y # rest) = encodeUnit x @ utf8Encode (y # rest)"
  by auto

lemma utf8Encode_append_right:
  "b = [] \<or> \<not> isTrail (hd b) \<Longrightarrow> utf8Encode (a @ b) = utf8Encode a @ utf8Encode b"
proof (induction a rule: utf8Encode.induct)
  case 1
  then show ?case by simp
next
  case (2 x)
  then show ?case by (cases b) simp_all
next
  case (3 x y rest)
  show ?case
  proof (cases "isLead x \<and> isTrail y")
    case True
    from "3.IH" [OF "3.prems"] True
    have "utf8Encode (rest @ b) = utf8Encode rest @ utf8Encode b" by simp
    then show ?thesis
      using utf8Encode_pair [OF True, of "rest @ b"] utf8Encode_pair [OF True, of rest]
      by simp
  next
    case False
    from "3.IH" [OF "3.prems"] False
    have "utf8Encode ((y # rest) @ b) = utf8Encode (y # rest) @ utf8Encode b" by simp
    then show ?thesis
      using utf8Encode_single [OF False, of "rest @ b"] utf8Encode_single [OF False, of rest]
      by simp
  qed
qed

lemma utf8Encode_append_left:
  "a \<noteq> [] \<Longrightarrow> \<not> isLead (last a) \<Longrightarrow> utf8Encode (a @ b) = utf8Encode a @ utf8Encode b"
proof (induction a rule: utf8Encode.induct)
  case 1
  then show ?case by simp
next
  case (2 x)
  then show ?case by (cases b) simp_all
next
  case (3 x y rest)
  show ?case
  proof (cases "isLead x \<and> isTrail y")
    case True
    have "utf8Encode (rest @ b) = utf8Encode rest @ utf8Encode b"
    proof (cases "rest = []")
      case True
      then show ?thesis by simp
    next
      case False
      with "3.prems" "3.IH" \<open>isLead x \<and> isTrail y\<close> show ?thesis by simp
    qed
    then show ?thesis
      using utf8Encode_pair [OF True, of "rest @ b"] utf8Encode_pair [OF True, of rest]
      by simp
  next
    case False
    from "3.prems" "3.IH" False
    have "utf8Encode ((y # rest) @ b) = utf8Encode (y # rest) @ utf8Encode b" by simp
    then show ?thesis
      using utf8Encode_single [OF False, of "rest @ b"] utf8Encode_single [OF False, of rest]
      by simp
  qed
qed

lemma startMarker_ends: "startMarker \<noteq> []" "\<not> isTrail (hd startMarker)" "\<not> isLead (last startMarker)"
  by (simp_all add: startMarker_def js_def isTrail_def isLead_def)

lemma endMarker_ends: "endMarker \<noteq> []" "\<not> isTrail (hd endMarker)" "\<not> isLead (last endMarker)"
  by (simp_all add: endMarker_def js_def isTrail_def isLead_def)

lemma NL_ends: "\<not> isTrail (hd (NL @ s))" "\<not> isLead (last (s @ NL))"
  by (simp_all add: NL_def isTrail_def isLead_def)

lemma utf8Encode_around_markers:
  "utf8Encode (pre @ startMarker @ mid @ endMarker @ post) =
     utf8Encode pre @ utf8Encode startMarker @ utf8Encode mid @ utf8Encode endMarker @
     utf8Encode post"
proof -
  have "utf8Encode (pre @ startMarker @ mid @ endMarker @ post) =
        utf8Encode pre @ utf8Encode (startMarker @ mid @ endMarker @ post)"
    using startMarker_ends by (intro utf8Encode_append_right) simp
  also have "utf8Encode (startMarker @ mid @ endMarker @ post) =
        utf8Encode startMarker @ utf8Encode (mid @ endMarker @ post)"
    using startMarker_ends by (intro utf8Encode_append_left) simp_all
  also have "utf8Encode (mid @ endMarker @ post) = utf8Encode mid @ utf8Encode (endMarker @ post)"
    using endMarker_ends by (intro utf8Encode_append_right) simp
  also have "utf8Encode (endMarker @ post) = utf8Encode endMarker @ utf8Encode post"
    using endMarker_ends by (intro utf8Encode_append_left) simp_all
  finally show ?thesis .
qed

lemma updateReadmeFile_absent:
  assumes "indexOf (decode bytes) startMarker = None \<or> indexOf (decode bytes) endMarker = None"
  shows "updateReadmeFile decode (Some bytes) table = (Some bytes, MarkersNotFound)"
  using assms by (auto simp: updateReadmeFile_def updateReadme_def split: option.splits)

text \<open>
  C4, for a README that is valid UTF-8 with its markers in order. Let the README be the
  UTF-8 encoding of the string read from it, let both markers occur in that string and
  let the first occurrence of the end marker start at or after the end of the first
  occurrence of the start marker. Then the file written is the old file with the bytes
  strictly between these two occurrences replaced by the encoding of two newlines, the
  rendered table and one newline; both markers and every byte before the start marker
  and after the end marker are kept as they were.
\<close>

theorem readme_bytes_spliced_between_markers:
  assumes "utf8Encode (decode bytes) = bytes"
    and "indexOf (decode bytes) startMarker = Some i"
    and "indexOf (decode bytes) endMarker = Some j"
    and "i + length startMarker \<le> j"
  shows "(\<exists>pre mid post.
           decode bytes = pre @ startMarker @ mid @ endMarker @ post \<and>
           length pre = i \<and> length (pre @ startMarker @ mid) = j \<and>
           bytes = utf8Encode pre @ utf8Encode startMarker @ utf8Encode mid @
                   utf8Encode endMarker @ utf8Encode post \<and>
           updateReadmeFile decode (Some bytes) table =
             (Some (utf8Encode pre @ utf8Encode startMarker @ utf8Encode (NL @ NL @ table @ NL) @
                    utf8Encode endMarker @ utf8Encode post), ReadmeUpdated)) \<and>
         utf8Encode startMarker = asciiBytes ''<!-- CONFORMANCE_TABLE_START -->'' \<and>
         utf8Encode endMarker = asciiBytes ''<!-- CONFORMANCE_TABLE_END -->'' \<and>
         utf8Encode (NL @ NL @ table @ NL) = [0x0A, 0x0A] @ utf8Encode table @ [0x0A]"
proof -
  from updateReadme_splice [OF assms(2,3,4), of table]
  obtain pre mid post where
    d: "decode bytes = pre @ startMarker @ mid @ endMarker @ post" and
    l: "length pre = i" "length (pre @ startMarker @ mid) = j" and
    u: "updateReadme (Some (decode bytes)) table =
          (Some (pre @ startMarker @ NL @ NL @ table @ NL @ endMarker @ post), ReadmeUpdated)"
    by blast
  have "utf8Encode (decode bytes) =
        utf8Encode pre @ utf8Encode startMarker @ utf8Encode mid @ utf8Encode endMarker @
        utf8Encode post"
    by (simp only: d utf8Encode_around_markers)
  with assms(1) have b: "bytes = utf8Encode pre @ utf8Encode startMarker @ utf8Encode mid @
                   utf8Encode endMarker @ utf8Encode post"
    by simp
  have "utf8Encode (pre @ startMarker @ (NL @ NL @ table @ NL) @ endMarker @ post) =
        utf8Encode pre @ utf8Encode startMarker @ utf8Encode (NL @ NL @ table @ NL) @
        utf8Encode endMarker @ utf8Encode post"
    by (rule utf8Encode_around_markers)
  then have w: "updateReadmeFile decode (Some bytes) table =
             (Some (utf8Encode pre @ utf8Encode startMarker @ utf8Encode (NL @ NL @ table @ NL) @
                    utf8Encode endMarker @ utf8Encode post), ReadmeUpdated)"
    by (simp add: updateReadmeFile_def u)
  have m: "utf8Encode startMarker = asciiBytes ''<!-- CONFORMANCE_TABLE_START -->''"
    "utf8Encode endMarker = asciiBytes ''<!-- CONFORMANCE_TABLE_END -->''"
    by code_simp+
  have "utf8Encode ((NL @ NL) @ table @ NL) = utf8Encode (NL @ NL) @ utf8Encode (table @ NL)"
    by (rule utf8Encode_append_left) (simp_all add: NL_def isLead_def)
  also have "utf8Encode (table @ NL) = utf8Encode table @ utf8Encode NL"
    by (rule utf8Encode_append_right) (simp add: NL_def isTrail_def)
  also have "utf8Encode (NL @ NL) = [0x0A, 0x0A]" by code_simp
  also have "utf8Encode NL = [0x0A]" by code_simp
  finally have f: "utf8Encode (NL @ NL @ table @ NL) = [0x0A, 0x0A] @ utf8Encode table @ [0x0A]"
    by simp
  from d l b w have "\<exists>pre mid post.
           decode bytes = pre @ startMarker @ mid @ endMarker @ post \<and>
           length pre = i \<and> length (pre @ startMarker @ mid) = j \<and>
           bytes = utf8Encode pre @ utf8Encode startMarker @ utf8Encode mid @
                   utf8Encode endMarker @ utf8Encode post \<and>
           updateReadmeFile decode (Some bytes) table =
             (Some (utf8Encode pre @ utf8Encode startMarker @ utf8Encode (NL @ NL @ table @ NL) @
                    utf8Encode endMarker @ utf8Encode post), ReadmeUpdated)"
    by blast
  with m f show ?thesis by blast
qed

theorem readme_bytes_spliced_between_markers_witness:
  "utf8Encode (utf8Decode exReadme) = exReadme \<and>
   indexOf (utf8Decode exReadme) startMarker = Some 3 \<and>
   indexOf (utf8Decode exReadme) endMarker = Some 38 \<and>
   3 + length startMarker \<le> 38 \<and>
   updateReadmeFile utf8Decode (Some exReadme) (js ''| T |'') =
     (Some ([0x23, 0x20, 0xC3, 0xA9] @ asciiBytes ''<!-- CONFORMANCE_TABLE_START -->'' @
            [0x0A, 0x0A, 0x7C, 0x20, 0x54, 0x20, 0x7C, 0x0A] @
            asciiBytes ''<!-- CONFORMANCE_TABLE_END -->'' @ [0xF0, 0x9F, 0x94, 0xB4, 0x0A]),
      ReadmeUpdated)"
proof -
  have 1: "utf8Encode (utf8Decode exReadme) = exReadme" by code_simp
  have 2: "indexOf (utf8Decode exReadme) startMarker = Some 3" by code_simp
  have 3: "indexOf (utf8Decode exReadme) endMarker = Some 38" by code_simp
  have 4: "3 + length startMarker \<le> 38" by code_simp
  from readme_bytes_spliced_between_markers
    [where decode = utf8Decode and bytes = exReadme and table = "js ''| T |''", OF 1 2 3 4]
  obtain pre mid post where
    "updateReadmeFile utf8Decode (Some exReadme) (js ''| T |'') =
       (Some (utf8Encode pre @ utf8Encode startMarker @ utf8Encode (NL @ NL @ js ''| T |'' @ NL) @
              utf8Encode endMarker @ utf8Encode post), ReadmeUpdated)"
    by blast
  then have "snd (updateReadmeFile utf8Decode (Some exReadme) (js ''| T |'')) = ReadmeUpdated"
    by simp
  moreover have "updateReadmeFile utf8Decode (Some exReadme) (js ''| T |'') =
     (Some ([0x23, 0x20, 0xC3, 0xA9] @ asciiBytes ''<!-- CONFORMANCE_TABLE_START -->'' @
            [0x0A, 0x0A, 0x7C, 0x20, 0x54, 0x20, 0x7C, 0x0A] @
            asciiBytes ''<!-- CONFORMANCE_TABLE_END -->'' @ [0xF0, 0x9F, 0x94, 0xB4, 0x0A]),
      ReadmeUpdated)"
    by code_simp
  ultimately show ?thesis using 1 2 3 4 by simp
qed

text \<open>
  C4 as stated fails in three ways. With the markers in order, the text written between
  them is not the rendered table alone: the table comes after two newlines and before
  one. With the end marker before the start marker, both markers are found, the text up
  to the end of the start marker and the text from the end marker on overlap, and the
  file written holds the old text twice; the old text has no part that lies between
  the end of the start marker and the start of a later end marker. And for a README
  that is not valid UTF-8 the bytes outside the markers are not kept: a byte \<open>FF\<close>
  before the start marker and a byte \<open>C3\<close> cut off after the end marker are each
  written back as \<open>EF BF BD\<close>.
\<close>

theorem splice_is_not_exact_replacement:
  "updateReadme (Some (startMarker @ js ''old'' @ endMarker)) (js ''| T |'') =
     (Some (startMarker @ NL @ NL @ js ''| T |'' @ NL @ endMarker), ReadmeUpdated) \<and>
   startMarker @ NL @ NL @ js ''| T |'' @ NL @ endMarker \<noteq>
     startMarker @ js ''| T |'' @ endMarker \<and>
   indexOf (endMarker @ startMarker) startMarker = Some (length endMarker) \<and>
   indexOf (endMarker @ startMarker) endMarker = Some 0 \<and>
   updateReadme (Some (endMarker @ startMarker)) (js ''| T |'') =
     (Some ((endMarker @ startMarker) @ NL @ NL @ js ''| T |'' @ NL @ (endMarker @ startMarker)),
      ReadmeUpdated) \<and>
   \<not> (\<exists>pre mid post. endMarker @ startMarker = pre @ startMarker @ mid @ endMarker @ post) \<and>
   updateReadmeFile utf8Decode
     (Some ([0xFF] @ asciiBytes ''<!-- CONFORMANCE_TABLE_START -->'' @
            asciiBytes ''<!-- CONFORMANCE_TABLE_END -->'' @ [0xC3])) (js ''| T |'') =
     (Some ([0xEF, 0xBF, 0xBD] @ asciiBytes ''<!-- CONFORMANCE_TABLE_START -->'' @
            [0x0A, 0x0A, 0x7C, 0x20, 0x54, 0x20, 0x7C, 0x0A] @
            asciiBytes ''<!-- CONFORMANCE_TABLE_END -->'' @ [0xEF, 0xBF, 0xBD]), ReadmeUpdated)"
proof (intro conjI)
  show "updateReadme (Some (startMarker @ js ''old'' @ endMarker)) (js ''| T |'') =
     (Some (startMarker @ NL @ NL @ js ''| T |'' @ NL @ endMarker), ReadmeUpdated)"
    by code_simp
  show "startMarker @ NL @ NL @ js ''| T |'' @ NL @ endMarker \<noteq>
     startMarker @ js ''| T |'' @ endMarker"
    by (simp add: NL_def js_def)
  show "indexOf (endMarker @ startMarker) startMarker = Some (length endMarker)"
    by code_simp
  show "indexOf (endMarker @ startMarker) endMarker = Some 0"
    by code_simp
  show "updateReadme (Some (endMarker @ startMarker)) (js ''| T |'') =
     (Some ((endMarker @ startMarker) @ NL @ NL @ js ''| T |'' @ NL @ (endMarker @ startMarker)),
      ReadmeUpdated)"
    by code_simp
  show "\<not> (\<exists>pre mid post. endMarker @ startMarker = pre @ startMarker @ mid @ endMarker @ post)"
  proof
    assume "\<exists>pre mid post. endMarker @ startMarker = pre @ startMarker @ mid @ endMarker @ post"
    then obtain pre mid post where
      e: "endMarker @ startMarker = pre @ startMarker @ mid @ endMarker @ post" by blast
    then have "length (endMarker @ startMarker) = length (pre @ startMarker @ mid @ endMarker @ post)"
      by simp
    then have "pre = []" "mid = []" "post = []" by simp_all
    with e have "endMarker @ startMarker = startMarker @ endMarker" by simp
    moreover have "endMarker @ startMarker \<noteq> startMarker @ endMarker" by code_simp
    ultimately show False by contradiction
  qed
  show "updateReadmeFile utf8Decode
     (Some ([0xFF] @ asciiBytes ''<!-- CONFORMANCE_TABLE_START -->'' @
            asciiBytes ''<!-- CONFORMANCE_TABLE_END -->'' @ [0xC3])) (js ''| T |'') =
     (Some ([0xEF, 0xBF, 0xBD] @ asciiBytes ''<!-- CONFORMANCE_TABLE_START -->'' @
            [0x0A, 0x0A, 0x7C, 0x20, 0x54, 0x20, 0x7C, 0x0A] @
            asciiBytes ''<!-- CONFORMANCE_TABLE_END -->'' @ [0xEF, 0xBF, 0xBD]), ReadmeUpdated)"
    by code_simp
qed

section \<open>Sorting with a comparator\<close>

lemma sortBy_Cons: "sortBy cmp (x # xs) = insertBy cmp x (sortBy cmp xs)"
  by (simp add: sortBy_def)

lemma sortBy_Nil: "sortBy cmp [] = []"
  by (simp add: sortBy_def)

lemma sortedBy_insertBy:
  assumes "consistent cmp" "sortedBy cmp xs"
  shows "sortedBy cmp (insertBy cmp x xs)"
  using assms(2)
proof (induction xs)
  case Nil
  then show ?case by (simp add: sortedBy_def)
next
  case (Cons y ys)
  have tot: "\<And>a b. cmp a b \<le> 0 \<or> cmp b a \<le> 0"
    and trans: "\<And>a b c. cmp a b \<le> 0 \<Longrightarrow> cmp b c \<le> 0 \<Longrightarrow> cmp a c \<le> 0"
    using assms(1) unfolding consistent_def by blast+
  show ?case
  proof (cases "cmp x y \<le> 0")
    case True
    have "\<forall>z\<in>set ys. cmp x z \<le> 0"
      using Cons.prems True trans by (auto simp: sortedBy_def)
    with True Cons.prems show ?thesis by (simp add: sortedBy_def)
  next
    case False
    then have yx: "cmp y x \<le> 0" using tot [of x y] by simp
    have "sortedBy cmp (insertBy cmp x ys)"
      using Cons.prems by (intro Cons.IH) (simp add: sortedBy_def)
    moreover have "\<forall>z\<in>set (insertBy cmp x ys). cmp y z \<le> 0"
      using Cons.prems yx by (auto simp: sortedBy_def set_insertBy)
    ultimately show ?thesis using False by (simp add: sortedBy_def)
  qed
qed

lemma sortedBy_sortBy: "consistent cmp \<Longrightarrow> sortedBy cmp (sortBy cmp xs)"
proof (induction xs)
  case Nil
  then show ?case by (simp add: sortBy_Nil sortedBy_def)
next
  case (Cons x xs)
  then show ?case by (simp add: sortBy_Cons sortedBy_insertBy)
qed

lemma distinct_insertBy: "distinct xs \<Longrightarrow> x \<notin> set xs \<Longrightarrow> distinct (insertBy cmp x xs)"
  by (induction xs) (auto simp: set_insertBy)

lemma distinct_sortBy: "distinct xs \<Longrightarrow> distinct (sortBy cmp xs)"
  by (induction xs) (simp_all add: sortBy_Nil sortBy_Cons distinct_insertBy set_sortBy)

section \<open>Team ordering\<close>

lemma insertBy_teamCompare_typeberry:
  "insertBy (teamCompare lc) (js ''typeberry'') xs = js ''typeberry'' # xs"
  by (cases xs) (simp_all add: teamCompare_def)

lemma insertBy_teamCompare_other:
  assumes "x \<noteq> js ''typeberry''" "\<forall>y\<in>set ys. y \<noteq> js ''typeberry''"
  shows "insertBy (teamCompare lc) x ys = insertBy lc x ys"
  using assms(2) by (induction ys) (simp_all add: teamCompare_def assms(1))

lemma insertBy_teamCompare_skip:
  assumes "x \<noteq> js ''typeberry''" "\<forall>y\<in>set ts. y = js ''typeberry''"
  shows "insertBy (teamCompare lc) x (ts @ ys) = ts @ insertBy (teamCompare lc) x ys"
  using assms(2) by (induction ts) (simp_all add: teamCompare_def assms(1))

lemma sortBy_teamCompare:
  "sortBy (teamCompare lc) teams =
     filter (\<lambda>t. t = js ''typeberry'') teams @
     sortBy lc (filter (\<lambda>t. t \<noteq> js ''typeberry'') teams)"
proof (induction teams)
  case Nil
  then show ?case by (simp add: sortBy_Nil)
next
  case (Cons x xs)
  show ?case
  proof (cases "x = js ''typeberry''")
    case True
    then show ?thesis
      by (simp add: sortBy_Cons Cons.IH insertBy_teamCompare_typeberry)
  next
    case False
    have "insertBy (teamCompare lc) x
            (filter (\<lambda>t. t = js ''typeberry'') xs @
             sortBy lc (filter (\<lambda>t. t \<noteq> js ''typeberry'') xs)) =
          filter (\<lambda>t. t = js ''typeberry'') xs @
          insertBy lc x (sortBy lc (filter (\<lambda>t. t \<noteq> js ''typeberry'') xs))"
      using False
      by (simp add: insertBy_teamCompare_skip insertBy_teamCompare_other set_sortBy)
    with False show ?thesis
      by (simp add: sortBy_Cons Cons.IH)
  qed
qed

lemma filter_typeberry:
  "distinct ts \<Longrightarrow>
   filter (\<lambda>t. t = js ''typeberry'') ts =
     (if js ''typeberry'' \<in> set ts then [js ''typeberry''] else [])"
proof (induction ts)
  case Nil
  then show ?case by simp
next
  case (Cons x xs)
  show ?case
  proof (cases "x = js ''typeberry''")
    case True
    with Cons.prems have "js ''typeberry'' \<notin> set xs" by simp
    then have "filter (\<lambda>t. t = js ''typeberry'') xs = []"
      by (auto simp: filter_empty_conv)
    with True show ?thesis by simp
  next
    case False
    with Cons show ?thesis by auto
  qed
qed

lemma consistent_codeUnitCompare: "consistent codeUnitCompare"
  by (auto simp: consistent_def codeUnitCompare_def split: if_splits)

text \<open>
  C7, for each of the two files. In index.ts the team ordering of a set of discovered teams that
  contains \<open>typeberry\<close> is \<open>typeberry\<close> followed by the other names sorted by
  \<open>localeCompare\<close> (in order whenever \<open>localeCompare\<close> is a consistent comparator). In the
  simplified file the team ordering is the list of all names sorted by code units, with
  no name given priority.
\<close>

theorem typeberry_first_then_collation_order:
  assumes "distinct teams" and "js ''typeberry'' \<in> set teams" and "consistent localeCompare"
  shows "sortedTeams Full localeCompare teams =
           js ''typeberry'' # sortBy localeCompare (filter (\<lambda>t. t \<noteq> js ''typeberry'') teams) \<and>
         sortedBy localeCompare (sortBy localeCompare (filter (\<lambda>t. t \<noteq> js ''typeberry'') teams)) \<and>
         set (sortBy localeCompare (filter (\<lambda>t. t \<noteq> js ''typeberry'') teams)) =
           set teams - {js ''typeberry''} \<and>
         sorted (sortedTeams Simplified localeCompare teams) \<and>
         distinct (sortedTeams Simplified localeCompare teams) \<and>
         set (sortedTeams Simplified localeCompare teams) = set teams"
proof -
  have "filter (\<lambda>t. t = js ''typeberry'') teams = [js ''typeberry'']"
    using assms(1,2) by (simp add: filter_typeberry)
  then have "sortedTeams Full localeCompare teams =
           js ''typeberry'' # sortBy localeCompare (filter (\<lambda>t. t \<noteq> js ''typeberry'') teams)"
    by (simp add: sortBy_teamCompare)
  moreover have "sortedBy localeCompare
      (sortBy localeCompare (filter (\<lambda>t. t \<noteq> js ''typeberry'') teams))"
    using assms(3) by (rule sortedBy_sortBy)
  moreover have "set (sortBy localeCompare (filter (\<lambda>t. t \<noteq> js ''typeberry'') teams)) =
           set teams - {js ''typeberry''}"
    by (auto simp: set_sortBy)
  moreover have "sorted (sortedTeams Simplified localeCompare teams)"
    "set (sortedTeams Simplified localeCompare teams) = set teams"
    by simp_all
  moreover have "distinct (sortedTeams Simplified localeCompare teams)"
    using assms(1) by simp
  ultimately show ?thesis by blast
qed

theorem typeberry_first_then_collation_order_witness:
  "distinct [js ''alice'', js ''typeberry'', js ''bob''] \<and>
   js ''typeberry'' \<in> set [js ''alice'', js ''typeberry'', js ''bob''] \<and>
   consistent codeUnitCompare \<and>
   sortedTeams Full codeUnitCompare [js ''alice'', js ''typeberry'', js ''bob''] =
     [js ''typeberry'', js ''alice'', js ''bob'']"
proof -
  have d: "distinct [js ''alice'', js ''typeberry'', js ''bob'']" by code_simp
  have m: "js ''typeberry'' \<in> set [js ''alice'', js ''typeberry'', js ''bob'']" by simp
  have s: "sortBy codeUnitCompare
             (filter (\<lambda>t. t \<noteq> js ''typeberry'') [js ''alice'', js ''typeberry'', js ''bob'']) =
           [js ''alice'', js ''bob'']"
    by code_simp
  from typeberry_first_then_collation_order [OF d m consistent_codeUnitCompare]
  have "sortedTeams Full codeUnitCompare [js ''alice'', js ''typeberry'', js ''bob''] =
     js ''typeberry'' # sortBy codeUnitCompare
       (filter (\<lambda>t. t \<noteq> js ''typeberry'') [js ''alice'', js ''typeberry'', js ''bob''])"
    by blast
  with d m s consistent_codeUnitCompare show ?thesis by simp
qed

text \<open>
  C7 as stated fails on the simplified file: for a branch with the summary files of
  \<open>typeberry\<close> and \<open>alice\<close>, the row of \<open>typeberry\<close> comes after the row of \<open>alice\<close>.
\<close>

theorem simplified_team_ordering_has_no_priority:
  "allTeams (aggregate Simplified [exB4]) = [js ''typeberry'', js ''alice''] \<and>
   sortedTeams Simplified codeUnitCompare (allTeams (aggregate Simplified [exB4])) =
     [js ''alice'', js ''typeberry''] \<and>
   mdTableSimplified (aggregate Simplified [exB4]) =
     js ''| Team | '' @ RED @ js '' | '' @ GREEN @ js '' | '' @ WHITE @ js '' | 100 |'' @ NL @
     js ''|---|---|---|---|---|'' @ NL @
     js ''| alice | 1 | 0 | 0 | '' @ RED @ js '' |'' @ NL @
     js ''| typeberry | 0 | 1 | 0 | '' @ GREEN @ js '' |'' @ NL"
  by code_simp

section \<open>The table does not depend on insertion order\<close>

lemma sameResults_getStatus: "sameResults rs rs' \<Longrightarrow> getStatus rs = getStatus rs'"
  by (auto simp: sameResults_def fun_eq_iff)

lemma sameResults_allTraces: "sameResults rs rs' \<Longrightarrow> allTraces rs = allTraces rs'"
proof -
  assume s: "sameResults rs rs'"
  show "allTraces rs = allTraces rs'"
  proof (rule sorted_distinct_set_unique)
    show "sorted (allTraces rs)" "sorted (allTraces rs')"
      by (simp_all add: allTraces_def)
    show "distinct (allTraces rs)" "distinct (allTraces rs')"
      using s by (simp_all add: sameResults_def distinct_allTraces)
    show "set (allTraces rs) = set (allTraces rs')"
      using s by (simp add: sameResults_def allTraces_def)
  qed
qed

lemma sameTeams_sort: "sameTeams ts ts' \<Longrightarrow> sort ts = sort ts'"
  by (rule sorted_distinct_set_unique) (simp_all add: sameTeams_def)

lemma sortedBy_insertBy_on:
  assumes "totalOrderOn A cmp" "x \<in> A" "set xs \<subseteq> A" "sortedBy cmp xs"
  shows "sortedBy cmp (insertBy cmp x xs)"
  using assms(3,4)
proof (induction xs)
  case Nil
  then show ?case by (simp add: sortedBy_def)
next
  case (Cons y ys)
  have tot: "\<And>a b. a \<in> A \<Longrightarrow> b \<in> A \<Longrightarrow> cmp a b \<le> 0 \<or> cmp b a \<le> 0"
    and trans: "\<And>a b c. a \<in> A \<Longrightarrow> b \<in> A \<Longrightarrow> c \<in> A \<Longrightarrow>
                  cmp a b \<le> 0 \<Longrightarrow> cmp b c \<le> 0 \<Longrightarrow> cmp a c \<le> 0"
    using assms(1) unfolding totalOrderOn_def by blast+
  have yA: "y \<in> A" and ysA: "set ys \<subseteq> A"
    using Cons.prems(1) by simp_all
  show ?case
  proof (cases "cmp x y \<le> 0")
    case True
    have "\<forall>z\<in>set ys. cmp x z \<le> 0"
    proof
      fix z assume z: "z \<in> set ys"
      with Cons.prems(2) have "cmp y z \<le> 0" by (simp add: sortedBy_def)
      with True z ysA yA assms(2) show "cmp x z \<le> 0"
        using trans [of x y z] by blast
    qed
    with True Cons.prems(2) show ?thesis by (simp add: sortedBy_def)
  next
    case False
    then have yx: "cmp y x \<le> 0" using tot [OF assms(2) yA] by simp
    have "sortedBy cmp (insertBy cmp x ys)"
      using Cons.prems(2) ysA by (intro Cons.IH) (simp_all add: sortedBy_def)
    moreover have "\<forall>z\<in>set (insertBy cmp x ys). cmp y z \<le> 0"
      using Cons.prems(2) yx by (auto simp: sortedBy_def set_insertBy)
    ultimately show ?thesis using False by (simp add: sortedBy_def)
  qed
qed

lemma sortedBy_sortBy_on:
  "totalOrderOn A cmp \<Longrightarrow> set xs \<subseteq> A \<Longrightarrow> sortedBy cmp (sortBy cmp xs)"
proof (induction xs)
  case Nil
  then show ?case by (simp add: sortBy_Nil sortedBy_def)
next
  case (Cons x xs)
  then show ?case
    by (simp add: sortBy_Cons sortedBy_insertBy_on [where A = A] set_sortBy)
qed

lemma sortedBy_unique_on:
  assumes "totalOrderOn A cmp"
  shows "sortedBy cmp xs \<Longrightarrow> sortedBy cmp ys \<Longrightarrow> distinct xs \<Longrightarrow> distinct ys \<Longrightarrow>
         set xs = set ys \<Longrightarrow> set xs \<subseteq> A \<Longrightarrow> xs = ys"
proof (induction xs arbitrary: ys)
  case Nil
  then show ?case by simp
next
  case (Cons x xs)
  have anti: "\<And>a b. a \<in> A \<Longrightarrow> b \<in> A \<Longrightarrow> cmp a b \<le> 0 \<Longrightarrow> cmp b a \<le> 0 \<Longrightarrow> a = b"
    using assms unfolding totalOrderOn_def by blast
  from Cons.prems(5) obtain y ys' where ys: "ys = y # ys'"
    by (cases ys) auto
  have xA: "x \<in> A" and yA: "y \<in> A"
    using Cons.prems(5,6) ys by auto
  have xy: "x = y"
  proof (rule ccontr)
    assume ne: "x \<noteq> y"
    with Cons.prems(5) ys have "x \<in> set ys'" "y \<in> set xs" by auto
    with Cons.prems(1,2) ys have "cmp y x \<le> 0" "cmp x y \<le> 0"
      by (auto simp: sortedBy_def)
    with anti [OF xA yA] ne show False by blast
  qed
  have "set xs = set ys'"
    using Cons.prems(3,4,5) ys xy by auto
  moreover have "sortedBy cmp xs" "sortedBy cmp ys'" "distinct xs" "distinct ys'" "set xs \<subseteq> A"
    using Cons.prems ys by (auto simp: sortedBy_def)
  ultimately have "xs = ys'" using Cons.IH by blast
  with xy ys show ?case by simp
qed

lemma sortBy_unique_on:
  assumes "totalOrderOn A cmp" "set xs \<subseteq> A" "distinct xs" "distinct ys" "set xs = set ys"
  shows "sortBy cmp xs = sortBy cmp ys"
proof (rule sortedBy_unique_on [OF assms(1)])
  show "sortedBy cmp (sortBy cmp xs)" "sortedBy cmp (sortBy cmp ys)"
    using assms(1,2,5) by (simp_all add: sortedBy_sortBy_on [where A = A])
  show "distinct (sortBy cmp xs)" "distinct (sortBy cmp ys)"
    using assms(3,4) by (simp_all add: distinct_sortBy)
  show "set (sortBy cmp xs) = set (sortBy cmp ys)"
    using assms(5) by (simp add: set_sortBy)
  show "set (sortBy cmp xs) \<subseteq> A"
    using assms(2) by (simp add: set_sortBy)
qed

lemma sameTeams_sortedTeams:
  assumes "sameTeams ts ts'" "totalOrderOn (set ts) lc"
  shows "sortedTeams v lc ts = sortedTeams v lc ts'"
proof (cases v)
  case Simplified
  with assms(1) show ?thesis by (simp add: sameTeams_sort)
next
  case Full
  have d: "distinct ts" "distinct ts'" and e: "set ts = set ts'"
    using assms(1) by (simp_all add: sameTeams_def)
  have "filter (\<lambda>t. t = js ''typeberry'') ts = filter (\<lambda>t. t = js ''typeberry'') ts'"
    using d e by (simp add: filter_typeberry)
  moreover have "sortBy lc (filter (\<lambda>t. t \<noteq> js ''typeberry'') ts) =
                 sortBy lc (filter (\<lambda>t. t \<noteq> js ''typeberry'') ts')"
    using assms(2) d e by (intro sortBy_unique_on [where A = "set ts"]) auto
  ultimately show ?thesis
    by (simp add: Full sortBy_teamCompare)
qed

lemma sameBranchMap_linkify: "sameBranchMap m m' \<Longrightarrow> linkify m = linkify m'"
  by (auto simp: sameBranchMap_def linkify_def fun_eq_iff)

lemma failing_fun:
  "failing rs teams = (\<lambda>trace. \<exists>team\<in>set teams. getStatus rs trace team = Some Red)"
  by (simp add: fun_eq_iff failing_def)

lemma mdTable_same:
  assumes "getStatus (results st) = getStatus (results st')"
    and "allTraces (results st) = allTraces (results st')"
    and "sortedTeams Full lc (allTeams st) = sortedTeams Full lc (allTeams st')"
    and "linkify (traceBranchMap st) = linkify (traceBranchMap st')"
  shows "mdTable lc st = mdTable lc st'"
  by (simp add: mdTable_concat teamStats_filter traceRow_concat interestingTraces_filter
      statusCell_def failing_fun assms del: sortedTeams.simps)

lemma mdTableSimplified_same:
  assumes "getStatus (results st) = getStatus (results st')"
    and "allTraces (results st) = allTraces (results st')"
    and "sort (allTeams st) = sort (allTeams st')"
  shows "mdTableSimplified st = mdTableSimplified st'"
  by (simp add: mdTableSimplified_concat teamStats_filter teamRow_concat
      interestingTraces_filter statusCell_def failing_fun assms)

text \<open>
  C8, with the trace-to-branch association and without ties. The rendered table is a
  function of the result table, the team set and, in index.ts, the trace-to-branch
  association used for the links: two states that agree on these as maps and sets,
  whatever the insertion order of their entries, render the same table, because traces
  and teams are sorted before rendering. For index.ts this needs \<open>localeCompare\<close> to be a
  total order on the team names of the run: it ranks no two different team names as
  equal.
\<close>

theorem table_independent_of_insertion_order:
  assumes "sameResults (results st) (results st')"
    and "sameTeams (allTeams st) (allTeams st')"
    and "sameBranchMap (traceBranchMap st) (traceBranchMap st')"
    and "totalOrderOn (set (allTeams st)) localeCompare"
  shows "renderTable v localeCompare st = renderTable v localeCompare st'"
proof (cases v)
  case Full
  have "mdTable localeCompare st = mdTable localeCompare st'"
  proof (rule mdTable_same)
    show "getStatus (results st) = getStatus (results st')"
      using assms(1) by (rule sameResults_getStatus)
    show "allTraces (results st) = allTraces (results st')"
      using assms(1) by (rule sameResults_allTraces)
    show "sortedTeams Full localeCompare (allTeams st) =
          sortedTeams Full localeCompare (allTeams st')"
      using assms(2,4) by (rule sameTeams_sortedTeams)
    show "linkify (traceBranchMap st) = linkify (traceBranchMap st')"
      using assms(3) by (rule sameBranchMap_linkify)
  qed
  with Full show ?thesis by simp
next
  case Simplified
  have "mdTableSimplified st = mdTableSimplified st'"
  proof (rule mdTableSimplified_same)
    show "getStatus (results st) = getStatus (results st')"
      using assms(1) by (rule sameResults_getStatus)
    show "allTraces (results st) = allTraces (results st')"
      using assms(1) by (rule sameResults_allTraces)
    show "sort (allTeams st) = sort (allTeams st')"
      using assms(2) by (rule sameTeams_sort)
  qed
  with Simplified show ?thesis by simp
qed

lemma example_21:
  "aggregate Full [exB2, exB1] =
     \<lparr>results = [(js ''100'', [(js ''bob'', Red), (js ''alice'', Green)]),
                 (js ''200'', [(js ''alice'', Red)])],
      traceBranchMap = [(js ''100'', js ''b1'')],
      allTeams = [js ''bob'', js ''alice'']\<rparr>"
  by code_simp

lemma canonicalCompare_alice_bob:
  "canonicalCompare (js ''alice'') (js ''alice'') = 0"
  "canonicalCompare (js ''alice'') (js ''bob'') = - 1"
  "canonicalCompare (js ''bob'') (js ''alice'') = 1"
  "canonicalCompare (js ''bob'') (js ''bob'') = 0"
  by code_simp+

theorem table_independent_of_insertion_order_witness:
  "sameResults (results (aggregate Full [exB1, exB2])) (results (aggregate Full [exB2, exB1])) \<and>
   sameTeams (allTeams (aggregate Full [exB1, exB2])) (allTeams (aggregate Full [exB2, exB1])) \<and>
   sameBranchMap (traceBranchMap (aggregate Full [exB1, exB2]))
     (traceBranchMap (aggregate Full [exB2, exB1])) \<and>
   totalOrderOn (set (allTeams (aggregate Full [exB1, exB2]))) canonicalCompare \<and>
   results (aggregate Full [exB1, exB2]) \<noteq> results (aggregate Full [exB2, exB1]) \<and>
   allTeams (aggregate Full [exB1, exB2]) \<noteq> allTeams (aggregate Full [exB2, exB1]) \<and>
   renderTable Full canonicalCompare (aggregate Full [exB1, exB2]) =
   renderTable Full canonicalCompare (aggregate Full [exB2, exB1])"
proof -
  have ne: "js ''alice'' \<noteq> js ''bob''" "js ''100'' \<noteq> js ''200''"
    by (simp_all add: js_def)
  have 1: "sameResults (results (aggregate Full [exB1, exB2]))
             (results (aggregate Full [exB2, exB1]))"
    using ne by (auto simp: example_12 example_21 sameResults_def isMap_def getStatus_def)
  have 2: "sameTeams (allTeams (aggregate Full [exB1, exB2]))
             (allTeams (aggregate Full [exB2, exB1]))"
    using ne by (auto simp: example_12 example_21 sameTeams_def)
  have 3: "sameBranchMap (traceBranchMap (aggregate Full [exB1, exB2]))
             (traceBranchMap (aggregate Full [exB2, exB1]))"
    by (simp add: example_12 example_21 sameBranchMap_def)
  have 4: "totalOrderOn (set (allTeams (aggregate Full [exB1, exB2]))) canonicalCompare"
    by (simp add: example_12 totalOrderOn_def canonicalCompare_alice_bob)
  have 5: "results (aggregate Full [exB1, exB2]) \<noteq> results (aggregate Full [exB2, exB1])"
    using ne by (simp add: example_12 example_21)
  have 6: "allTeams (aggregate Full [exB1, exB2]) \<noteq> allTeams (aggregate Full [exB2, exB1])"
    using ne by (simp add: example_12 example_21)
  from table_independent_of_insertion_order [OF 1 2 3 4, of Full] 1 2 3 4 5 6
  show ?thesis by simp
qed

text \<open>
  C8 as stated fails on index.ts in two ways. Two runs that extract the same facts and
  end with the same result table and team set render different tables when the
  directory of an interesting trace exists in one working copy and not in the other: the
  trace is a link in one table and plain text in the other. And sorting does not remove
  the insertion order of two team names that \<open>localeCompare\<close> ranks as equal: with the
  summary files of the teams U+00E9 and U+0065 U+0301 listed in opposite orders, the
  runs end with the same result table, team set and trace-to-branch association, and
  the two team columns are exchanged.
\<close>

theorem table_depends_on_links_and_ties:
  "runFacts Full [exB1, exB2] = runFacts Full [exB1\<lparr>traceDirs := []\<rparr>, exB2] \<and>
   results (aggregate Full [exB1, exB2]) =
     results (aggregate Full [exB1\<lparr>traceDirs := []\<rparr>, exB2]) \<and>
   allTeams (aggregate Full [exB1, exB2]) =
     allTeams (aggregate Full [exB1\<lparr>traceDirs := []\<rparr>, exB2]) \<and>
   mdTable codeUnitCompare (aggregate Full [exB1, exB2]) =
     js ''| Trace | alice | bob |'' @ NL @ js ''|---|---|---|'' @ NL @
     js ''| '' @ RED @ js '' | 1 | 1 |'' @ NL @
     js ''| '' @ GREEN @ js '' | 1 | 0 |'' @ NL @
     js ''| '' @ WHITE @ js '' | 0 | 1 |'' @ NL @
     js ''| [100](https://github.com/w3f/jam-conformance/tree/b1/fuzz-reports/0.7.2/traces/100) | '' @
       GREEN @ js '' | '' @ RED @ js '' |'' @ NL @
     js ''| 200 | '' @ RED @ js '' | '' @ WHITE @ js '' |'' @ NL \<and>
   mdTable codeUnitCompare (aggregate Full [exB1\<lparr>traceDirs := []\<rparr>, exB2]) =
     js ''| Trace | alice | bob |'' @ NL @ js ''|---|---|---|'' @ NL @
     js ''| '' @ RED @ js '' | 1 | 1 |'' @ NL @
     js ''| '' @ GREEN @ js '' | 1 | 0 |'' @ NL @
     js ''| '' @ WHITE @ js '' | 0 | 1 |'' @ NL @
     js ''| 100 | '' @ GREEN @ js '' | '' @ RED @ js '' |'' @ NL @
     js ''| 200 | '' @ RED @ js '' | '' @ WHITE @ js '' |'' @ NL \<and>
   mdTable codeUnitCompare (aggregate Full [exB1, exB2]) \<noteq>
     mdTable codeUnitCompare (aggregate Full [exB1\<lparr>traceDirs := []\<rparr>, exB2]) \<and>
   canonicalCompare [0x00E9] [0x0065, 0x0301] = 0 \<and>
   canonicalCompare [0x0065, 0x0301] [0x00E9] = 0 \<and>
   runFacts Full [exB5] = runFacts Full [exB6] \<and>
   results (aggregate Full [exB5]) = results (aggregate Full [exB6]) \<and>
   traceBranchMap (aggregate Full [exB5]) = traceBranchMap (aggregate Full [exB6]) \<and>
   allTeams (aggregate Full [exB5]) = [[0x00E9], [0x0065, 0x0301]] \<and>
   allTeams (aggregate Full [exB6]) = [[0x0065, 0x0301], [0x00E9]] \<and>
   mdTable canonicalCompare (aggregate Full [exB5]) =
     js ''| Trace | '' @ [0x00E9] @ js '' | '' @ [0x0065, 0x0301] @ js '' |'' @ NL @
     js ''|---|---|---|'' @ NL @
     js ''| '' @ RED @ js '' | 0 | 1 |'' @ NL @
     js ''| '' @ GREEN @ js '' | 0 | 0 |'' @ NL @
     js ''| '' @ WHITE @ js '' | 1 | 0 |'' @ NL @
     js ''| 100 | '' @ WHITE @ js '' | '' @ RED @ js '' |'' @ NL \<and>
   mdTable canonicalCompare (aggregate Full [exB6]) =
     js ''| Trace | '' @ [0x0065, 0x0301] @ js '' | '' @ [0x00E9] @ js '' |'' @ NL @
     js ''|---|---|---|'' @ NL @
     js ''| '' @ RED @ js '' | 1 | 0 |'' @ NL @
     js ''| '' @ GREEN @ js '' | 0 | 0 |'' @ NL @
     js ''| '' @ WHITE @ js '' | 0 | 1 |'' @ NL @
     js ''| 100 | '' @ RED @ js '' | '' @ WHITE @ js '' |'' @ NL \<and>
   mdTable canonicalCompare (aggregate Full [exB5]) \<noteq>
     mdTable canonicalCompare (aggregate Full [exB6])"
  by code_simp

end
